theory Spec2Isabelle
  imports Main "HOL-Library.Word"
begin

section \<open>JavaScript values used by the pipeline\<close>

text \<open>
  A JavaScript string is a sequence of UTF-16 code units. \<open>str\<close> embeds an ASCII literal.
  A string is truthy iff it is not empty; \<open>undefined\<close> and \<open>null\<close> are \<open>None\<close>.
\<close>

type_synonym jschar = "16 word"
type_synonym jsstring = "jschar list"

definition str :: "string \<Rightarrow> jsstring" where
  "str s = map (\<lambda>c. of_nat (of_char c)) s"

fun truthy :: "jsstring option \<Rightarrow> bool" where
  "truthy None = False"
| "truthy (Some s) = (s \<noteq> [])"

section \<open>src/lib/storage.js: the session token\<close>

text \<open>
  \<open>encrypt\<close> and \<open>decrypt\<close> of src/lib/crypto.js are built on the platform's WebCrypto
  primitives (PBKDF2, AES-GCM, random salt and nonce), so they are taken as a capability:
  \<open>decrypt\<close> is \<open>None\<close> where the JavaScript promise rejects.
\<close>

record crypto =
  encrypt :: "jsstring \<Rightarrow> jsstring \<Rightarrow> jsstring"
  decrypt :: "jsstring \<Rightarrow> jsstring \<Rightarrow> jsstring option"

text \<open>
  The module state: the variable \<open>_sessionToken\<close> and the keys of \<open>chrome.storage.local\<close>
  that storage.js and capsule-client.js read.
\<close>

record vault =
  sessionToken :: "jsstring option"
  encrypted_token :: "jsstring option"
  capsule_endpoint :: "jsstring option"

definition setToken :: "crypto \<Rightarrow> vault \<Rightarrow> jsstring \<Rightarrow> jsstring \<Rightarrow> vault" where
  "setToken cr v token passphrase =
     (let v1 = v\<lparr>sessionToken := Some token\<rparr>;
          encrypted = encrypt cr token passphrase
      in v1\<lparr>encrypted_token := Some encrypted\<rparr>)"

definition getToken :: "crypto \<Rightarrow> vault \<Rightarrow> jsstring option \<Rightarrow> jsstring option \<times> vault" where
  "getToken cr v passphrase =
     (if truthy (sessionToken v) then (sessionToken v, v)
      else case passphrase of
        None \<Rightarrow> (None, v)
      | Some pw \<Rightarrow>
         (if pw = [] then (None, v)
          else case encrypted_token v of
            None \<Rightarrow> (None, v)
          | Some encrypted \<Rightarrow>
             (if encrypted = [] then (None, v)
              else case decrypt cr encrypted pw of
                None \<Rightarrow> (None, v)
              | Some t \<Rightarrow> (Some t, v\<lparr>sessionToken := Some t\<rparr>))))"

definition clearSession :: "vault \<Rightarrow> vault" where
  "clearSession v = v\<lparr>sessionToken := None\<rparr>"

text \<open>\<open>capsuleEndpoint()\<close> called without an argument: the stored URL, or null.\<close>

definition capsuleEndpoint :: "vault \<Rightarrow> jsstring option" where
  "capsuleEndpoint v = (if truthy (capsule_endpoint v) then capsule_endpoint v else None)"

text \<open>A stand-in cipher for concrete runs: the blob is the passphrase followed by the token.\<close>

definition prefix_cipher :: crypto where
  "prefix_cipher =
     \<lparr>encrypt = (\<lambda>t pw. pw @ t),
      decrypt = (\<lambda>blob pw. if take (length pw) blob = pw
                            then Some (drop (length pw) blob) else None)\<rparr>"

definition empty_vault :: vault where
  "empty_vault = \<lparr>sessionToken = None, encrypted_token = None, capsule_endpoint = None\<rparr>"

section \<open>src/lib/capsule-client.js: syncStudents\<close>


text \<open>The \<open>StudentRecord\<close> typedef: three required strings, five optional ones, \<open>extra\<close>.\<close>

record StudentRecord =
  sourcedId :: jsstring
  firstName :: jsstring
  lastName :: jsstring
  gradeLevel :: "jsstring option"
  homeRoom :: "jsstring option"
  enrollStatus :: "jsstring option"
  email :: "jsstring option"
  schoolId :: "jsstring option"
  extra :: "(jsstring \<times> jsstring) list"

definition BATCH_SIZE :: nat where
  "BATCH_SIZE = 50"

text \<open>A non-negative integer in a template string: its decimal digits.\<close>

fun show_nat :: "nat \<Rightarrow> jsstring" where
  "show_nat n = (if n < 10 then [of_nat (48 + n)]
                 else show_nat (n div 10) @ [of_nat (48 + n mod 10)])"

text \<open>\<open>Array.prototype.slice(i, j)\<close> for \<open>0 \<le> i \<le> j\<close>; the end is clipped to the length.\<close>

definition slice :: "'a list \<Rightarrow> nat \<Rightarrow> nat \<Rightarrow> 'a list" where
  "slice xs i j = take (j - i) (drop i xs)"

text \<open>
  One \<open>fetch\<close> call: the URL, the bearer header and the batch that is serialised into the
  body. The network is a function of the number of calls made before and of the request:
  a response with its status and body text (\<open>None\<close> where \<open>response.text()\<close> rejects), or a
  rejected promise with the error's message (network error, abort after the timeout).
\<close>

record request =
  url :: jsstring
  authorization :: jsstring
  students_body :: "StudentRecord list"

datatype fetch_result = Response nat "jsstring option" | Rejected jsstring

type_synonym transport = "nat \<Rightarrow> request \<Rightarrow> fetch_result"

definition response_ok :: "nat \<Rightarrow> bool" where
  "response_ok status = (200 \<le> status \<and> status \<le> 299)"

record SyncOutcome =
  success :: nat
  failed :: nat
  errors :: "jsstring list"

text \<open>
  What a run of the loop leaves behind: the returned object, the requests handed to
  \<open>fetch\<close> in order, and the arguments \<open>(sent, total)\<close> of the \<open>onProgress\<close> calls.
\<close>

record sync_run =
  outcome :: SyncOutcome
  requests :: "request list"
  progress :: "(nat \<times> nat) list"

definition sync_request :: "jsstring \<Rightarrow> jsstring \<Rightarrow> StudentRecord list \<Rightarrow> request" where
  "sync_request endpoint token batch =
     \<lparr>url = endpoint @ str ''/api/v1/sync/students'',
      authorization = str ''Bearer '' @ token,
      students_body = batch\<rparr>"

definition http_error :: "nat \<Rightarrow> nat \<Rightarrow> jsstring \<Rightarrow> jsstring" where
  "http_error i status body =
     str ''Batch '' @ show_nat (i div BATCH_SIZE + 1) @ str '': HTTP '' @ show_nat status
       @ [0x20, 0x2014, 0x20] @ body"

definition thrown_error :: "nat \<Rightarrow> jsstring \<Rightarrow> jsstring" where
  "thrown_error i message = str ''Batch '' @ show_nat (i div BATCH_SIZE + 1) @ str '': '' @ message"

function syncLoop :: "transport \<Rightarrow> jsstring \<Rightarrow> jsstring \<Rightarrow> StudentRecord list \<Rightarrow> nat
    \<Rightarrow> sync_run \<Rightarrow> sync_run" where
  "syncLoop net endpoint token students i run =
     (if i < length students then
        (let batch = slice students i (i + BATCH_SIZE);
             req = sync_request endpoint token batch;
             res = outcome run;
             res' = (case net (length (requests run)) req of
                       Response status text \<Rightarrow>
                         if \<not> response_ok status then
                           res\<lparr>failed := failed res + length batch,
                               errors := errors res @
                                 [http_error i status
                                    (case text of None \<Rightarrow> str ''unknown'' | Some b \<Rightarrow> b)]\<rparr>
                         else res\<lparr>success := success res + length batch\<rparr>
                     | Rejected message \<Rightarrow>
                         res\<lparr>failed := failed res + length batch,
                             errors := errors res @ [thrown_error i message]\<rparr>)
         in syncLoop net endpoint token students (i + BATCH_SIZE)
              \<lparr>outcome = res', requests = requests run @ [req],
               progress = progress run
                 @ [(min (i + BATCH_SIZE) (length students), length students)]\<rparr>)
      else run)"
  by pat_completeness auto
termination
  by (relation "measure (\<lambda>(net, endpoint, token, students, i, run). length students - i)")
     (auto simp: BATCH_SIZE_def)

declare syncLoop.simps [simp del]

datatype sync_error = NotAuthenticated | EndpointNotConfigured

definition syncStudents :: "crypto \<Rightarrow> transport \<Rightarrow> vault \<Rightarrow> StudentRecord list
    \<Rightarrow> jsstring option \<Rightarrow> (sync_error + sync_run) \<times> vault" where
  "syncStudents cr net v students passphrase =
     (let (tok, v') = getToken cr v passphrase
      in if \<not> truthy tok then (Inl NotAuthenticated, v')
         else (case capsuleEndpoint v' of
                 None \<Rightarrow> (Inl EndpointNotConfigured, v')
               | Some endpoint \<Rightarrow>
                  (Inr (syncLoop net endpoint (case tok of Some token \<Rightarrow> token | None \<Rightarrow> [])
                          students 0
                          \<lparr>outcome = \<lparr>success = 0, failed = 0, errors = []\<rparr>,
                           requests = [], progress = []\<rparr>), v')))"

text \<open>
  The batch view of a run: the number of batches of \<open>n\<close> records, the \<open>k\<close>-th batch, the
  transport's answer to it, whether that answer counts as success, and the error string
  pushed otherwise.
\<close>

definition num_batches :: "nat \<Rightarrow> nat" where
  "num_batches n = (n + (BATCH_SIZE - 1)) div BATCH_SIZE"

definition batch_of :: "'a list \<Rightarrow> nat \<Rightarrow> 'a list" where
  "batch_of xs k = take BATCH_SIZE (drop (BATCH_SIZE * k) xs)"

definition batch_result :: "transport \<Rightarrow> jsstring \<Rightarrow> jsstring \<Rightarrow> StudentRecord list \<Rightarrow> nat
    \<Rightarrow> fetch_result" where
  "batch_result net endpoint token students k =
     net k (sync_request endpoint token (batch_of students k))"

fun batch_ok :: "fetch_result \<Rightarrow> bool" where
  "batch_ok (Response status text) = response_ok status"
| "batch_ok (Rejected message) = False"

fun batch_error :: "nat \<Rightarrow> fetch_result \<Rightarrow> jsstring" where
  "batch_error k (Response status text) =
     http_error (BATCH_SIZE * k) status (case text of None \<Rightarrow> str ''unknown'' | Some b \<Rightarrow> b)"
| "batch_error k (Rejected message) = thrown_error (BATCH_SIZE * k) message"

declare show_nat.simps [simp del]

text \<open>A concrete run: 120 records, the second transport call fails.\<close>

definition demo_student :: StudentRecord where
  "demo_student = \<lparr>sourcedId = str ''1001'', firstName = str ''Ana'', lastName = str ''Lee'',
     gradeLevel = Some (str ''7''), homeRoom = None, enrollStatus = None, email = None,
     schoolId = None, extra = []\<rparr>"

definition second_call_fails :: transport where
  "second_call_fails k req =
     (if k = 1 then Rejected (str ''Failed to fetch'') else Response 200 (Some []))"

definition ready_vault :: vault where
  "ready_vault = \<lparr>sessionToken = Some (str ''tok''), encrypted_token = None,
     capsule_endpoint = Some (str ''https://capsule.example'')\<rparr>"

section \<open>src/lib/capsule-client.js (hasher part): hashStudent and diffStudents\<close>

text \<open>
  \<open>JSON.stringify\<close> of a string (QuoteJSONString): the two-character escapes, \<open>\u00xx\<close> for
  the other control characters and \<open>\udxxx\<close> for a surrogate that is not part of a pair;
  every other code unit stands for itself.
\<close>

type_synonym byte = "8 word"

definition is_high_surrogate :: "jschar \<Rightarrow> bool" where
  "is_high_surrogate c = (0xD800 \<le> c \<and> c \<le> 0xDBFF)"

definition is_low_surrogate :: "jschar \<Rightarrow> bool" where
  "is_low_surrogate c = (0xDC00 \<le> c \<and> c \<le> 0xDFFF)"

definition hex_digit :: "nat \<Rightarrow> jschar" where
  "hex_digit d = (if d < 10 then of_nat (48 + d) else of_nat (87 + d))"

definition unicode_escape :: "jschar \<Rightarrow> jsstring" where
  "unicode_escape c =
     [0x5C, 0x75] @ map hex_digit
       [unat c div 4096, unat c div 256 mod 16, unat c div 16 mod 16, unat c mod 16]"

fun json_escape :: "jsstring \<Rightarrow> jsstring" where
  "json_escape [] = []"
| "json_escape (c # cs) =
     (if c = 0x08 then [0x5C, 0x62] @ json_escape cs
      else if c = 0x09 then [0x5C, 0x74] @ json_escape cs
      else if c = 0x0A then [0x5C, 0x6E] @ json_escape cs
      else if c = 0x0C then [0x5C, 0x66] @ json_escape cs
      else if c = 0x0D then [0x5C, 0x72] @ json_escape cs
      else if c = 0x22 then [0x5C, 0x22] @ json_escape cs
      else if c = 0x5C then [0x5C, 0x5C] @ json_escape cs
      else if c < 0x20 then unicode_escape c @ json_escape cs
      else if is_high_surrogate c then
        (case cs of
           [] \<Rightarrow> unicode_escape c
         | d # ds \<Rightarrow> if is_low_surrogate d then c # d # json_escape ds
                     else unicode_escape c @ json_escape cs)
      else if is_low_surrogate c then unicode_escape c @ json_escape cs
      else c # json_escape cs)"

definition json_quote :: "jsstring \<Rightarrow> jsstring" where
  "json_quote s = [0x22] @ json_escape s @ [0x22]"

text \<open>
  \<open>new TextEncoder().encode\<close>: UTF-8, a surrogate pair as one four-byte code point, a lone
  surrogate as U+FFFD.
\<close>

definition utf8_code_point :: "nat \<Rightarrow> byte list" where
  "utf8_code_point n =
     (if n < 0x80 then [of_nat n]
      else if n < 0x800 then [of_nat (0xC0 + n div 64), of_nat (0x80 + n mod 64)]
      else if n < 0x10000 then
        [of_nat (0xE0 + n div 4096), of_nat (0x80 + n div 64 mod 64), of_nat (0x80 + n mod 64)]
      else [of_nat (0xF0 + n div 262144), of_nat (0x80 + n div 4096 mod 64),
            of_nat (0x80 + n div 64 mod 64), of_nat (0x80 + n mod 64)])"

fun utf8_encode :: "jsstring \<Rightarrow> byte list" where
  "utf8_encode [] = []"
| "utf8_encode (c # cs) =
     (if is_high_surrogate c then
        (case cs of
           [] \<Rightarrow> utf8_code_point 0xFFFD
         | d # ds \<Rightarrow>
             if is_low_surrogate d
             then utf8_code_point (0x10000 + (unat c - 0xD800) * 1024 + (unat d - 0xDC00))
                    @ utf8_encode ds
             else utf8_code_point 0xFFFD @ utf8_encode cs)
      else if is_low_surrogate c then utf8_code_point 0xFFFD @ utf8_encode cs
      else utf8_code_point (unat c) @ utf8_encode cs)"

text \<open>\<open>b.toString(16).padStart(2, '0')\<close> for every byte, joined: two lowercase hex digits each.\<close>

definition hex_encode :: "byte list \<Rightarrow> jsstring" where
  "hex_encode bs = concat (map (\<lambda>b. [hex_digit (unat b div 16), hex_digit (unat b mod 16)]) bs)"

text \<open>\<open>student.gradeLevel || ''\<close>: the empty string for an absent field.\<close>

fun or_empty :: "jsstring option \<Rightarrow> jsstring" where
  "or_empty None = []"
| "or_empty (Some s) = s"

text \<open>The string that is hashed: \<open>JSON.stringify\<close> of the object literal, keys in source order.\<close>

definition normalized :: "StudentRecord \<Rightarrow> jsstring" where
  "normalized student =
     str ''{'' @ json_quote (str ''id'') @ str '':'' @ json_quote (sourcedId student)
     @ str '','' @ json_quote (str ''fn'') @ str '':'' @ json_quote (firstName student)
     @ str '','' @ json_quote (str ''ln'') @ str '':'' @ json_quote (lastName student)
     @ str '','' @ json_quote (str ''gr'') @ str '':'' @ json_quote (or_empty (gradeLevel student))
     @ str '','' @ json_quote (str ''hr'') @ str '':'' @ json_quote (or_empty (homeRoom student))
     @ str '','' @ json_quote (str ''es'') @ str '':'' @ json_quote (or_empty (enrollStatus student))
     @ str '','' @ json_quote (str ''em'') @ str '':'' @ json_quote (or_empty (email student))
     @ str '','' @ json_quote (str ''si'') @ str '':'' @ json_quote (or_empty (schoolId student))
     @ str ''}''"

text \<open>
  \<open>crypto.subtle.digest('SHA-256', bytes)\<close> is the platform's; it is the parameter \<open>sha256\<close>
  of everything below, from bytes to bytes.
\<close>

type_synonym digest = "byte list \<Rightarrow> byte list"

definition hashStudent :: "digest \<Rightarrow> StudentRecord \<Rightarrow> jsstring" where
  "hashStudent sha256 student = hex_encode (sha256 (utf8_encode (normalized student)))"

text \<open>
  The hash index is a plain object used as a dictionary; the map holds its own properties,
  all strings. Reading \<open>obj[key]\<close> finds the own property, else what \<open>Object.prototype\<close>
  has under that name (a function or an object, never a string), else \<open>undefined\<close>.
  Writing \<open>obj[key] = v\<close> with a string \<open>v\<close> creates or updates the own property, except
  for the key \<open>__proto__\<close> on an object that does not own it: the assignment reaches the
  accessor inherited from \<open>Object.prototype\<close>, whose setter ignores a value that is neither
  an object nor null, and no own property appears.
\<close>

type_synonym hash_index = "jsstring \<rightharpoonup> jsstring"

datatype jsvalue = Undefined | String jsstring | Inherited

definition object_prototype_keys :: "jsstring list" where
  "object_prototype_keys = map str
     [''constructor'', ''__defineGetter__'', ''__defineSetter__'', ''hasOwnProperty'',
      ''__lookupGetter__'', ''__lookupSetter__'', ''isPrototypeOf'', ''propertyIsEnumerable'',
      ''toString'', ''valueOf'', ''__proto__'', ''toLocaleString'']"

definition js_get :: "hash_index \<Rightarrow> jsstring \<Rightarrow> jsvalue" where
  "js_get obj key =
     (case obj key of
        Some v \<Rightarrow> String v
      | None \<Rightarrow> if key \<in> set object_prototype_keys then Inherited else Undefined)"

definition js_set :: "hash_index \<Rightarrow> jsstring \<Rightarrow> jsstring \<Rightarrow> hash_index" where
  "js_set obj key v =
     (if key = str ''__proto__'' \<and> obj key = None then obj else obj(key \<mapsto> v))"

text \<open>\<open>diffStudents\<close>: the \<open>for \<dots> of\<close> loop over the records, then the pair that is returned.\<close>

fun diffLoop :: "digest \<Rightarrow> StudentRecord list \<Rightarrow> hash_index
    \<Rightarrow> StudentRecord list \<times> hash_index \<Rightarrow> StudentRecord list \<times> hash_index" where
  "diffLoop sha256 [] existingHashes (changed, newHashes) = (changed, newHashes)"
| "diffLoop sha256 (student # rest) existingHashes (changed, newHashes) =
     (let hash = hashStudent sha256 student;
          newHashes' = js_set newHashes (sourcedId student) hash;
          changed' = (if js_get existingHashes (sourcedId student) \<noteq> String hash
                      then changed @ [student] else changed)
      in diffLoop sha256 rest existingHashes (changed', newHashes'))"

definition diffStudents :: "digest \<Rightarrow> StudentRecord list \<Rightarrow> hash_index
    \<Rightarrow> StudentRecord list \<times> hash_index" where
  "diffStudents sha256 students existingHashes =
     diffLoop sha256 students existingHashes ([], Map.empty)"

text \<open>\<open>diffStudentsInWorker\<close> of the service worker: the same loop with the hash inlined.\<close>

fun diffWorkerLoop :: "digest \<Rightarrow> StudentRecord list \<Rightarrow> hash_index
    \<Rightarrow> StudentRecord list \<times> hash_index \<Rightarrow> StudentRecord list \<times> hash_index" where
  "diffWorkerLoop sha256 [] existingHashes (changed, newHashes) = (changed, newHashes)"
| "diffWorkerLoop sha256 (student # rest) existingHashes (changed, newHashes) =
     (let normalized = normalized student;
          buf = sha256 (utf8_encode normalized);
          hash = hex_encode buf;
          newHashes' = js_set newHashes (sourcedId student) hash;
          changed' = (if js_get existingHashes (sourcedId student) \<noteq> String hash
                      then changed @ [student] else changed)
      in diffWorkerLoop sha256 rest existingHashes (changed', newHashes'))"

definition diffStudentsInWorker :: "digest \<Rightarrow> StudentRecord list \<Rightarrow> hash_index
    \<Rightarrow> StudentRecord list \<times> hash_index" where
  "diffStudentsInWorker sha256 students existingHashes =
     diffWorkerLoop sha256 students existingHashes ([], Map.empty)"

text \<open>
  A record counts as changed against a prior index when its id is absent there or the
  stored value differs from its hash.
\<close>

definition is_changed :: "digest \<Rightarrow> hash_index \<Rightarrow> StudentRecord \<Rightarrow> bool" where
  "is_changed sha256 prior s =
     (case prior (sourcedId s) of None \<Rightarrow> True | Some h \<Rightarrow> h \<noteq> hashStudent sha256 s)"

definition hex_digits :: "jschar set" where
  "hex_digits = set (str ''0123456789abcdef'')"

text \<open>Records for concrete runs, and a stand-in digest (the first 32 bytes, zero-padded).\<close>

definition ann7 :: StudentRecord where
  "ann7 = \<lparr>sourcedId = str ''7'', firstName = str ''Ann'', lastName = str ''Lee'',
     gradeLevel = None, homeRoom = None, enrollStatus = None, email = None,
     schoolId = None, extra = []\<rparr>"

definition bob7 :: StudentRecord where
  "bob7 = \<lparr>sourcedId = str ''7'', firstName = str ''Bob'', lastName = str ''Lee'',
     gradeLevel = None, homeRoom = None, enrollStatus = None, email = None,
     schoolId = None, extra = []\<rparr>"

definition proto_student :: StudentRecord where
  "proto_student = \<lparr>sourcedId = str ''__proto__'', firstName = str ''Ann'',
     lastName = str ''Lee'', gradeLevel = None, homeRoom = None, enrollStatus = None,
     email = None, schoolId = None, extra = []\<rparr>"

definition stub_digest :: digest where
  "stub_digest bs = take 32 (bs @ replicate 32 0)"

definition cy9 :: StudentRecord where
  "cy9 = \<lparr>sourcedId = str ''9'', firstName = str ''Cy'', lastName = str ''Ng'',
     gradeLevel = Some (str ''7''), homeRoom = None, enrollStatus = None, email = None,
     schoolId = None, extra = []\<rparr>"

section \<open>CSV export parser: parseCSV and parseExportCSV\<close>

text \<open>
  \<open>String.prototype.trim\<close> removes white space and line terminators from both ends; the
  byte order mark U+FEFF is white space in ECMAScript.
\<close>

definition is_space :: "jschar \<Rightarrow> bool" where
  "is_space c =
     (c = 0x09 \<or> c = 0x0A \<or> c = 0x0B \<or> c = 0x0C \<or> c = 0x0D \<or> c = 0x20 \<or> c = 0xA0
      \<or> c = 0x1680 \<or> (0x2000 \<le> c \<and> c \<le> 0x200A) \<or> c = 0x2028 \<or> c = 0x2029
      \<or> c = 0x202F \<or> c = 0x205F \<or> c = 0x3000 \<or> c = 0xFEFF)"

definition trim :: "jsstring \<Rightarrow> jsstring" where
  "trim s = rev (dropWhile is_space (rev (dropWhile is_space s)))"

text \<open>
  \<open>parseCSV\<close>: the loop variables \<open>lines\<close>, \<open>current\<close>, \<open>inQuotes\<close> and the rows collected in
  \<open>parseCSV._rows\<close> (undefined at the start of every call, read as the empty list).
\<close>

type_synonym csv_state = "jsstring list \<times> jsstring \<times> bool \<times> jsstring list list"

definition csv_step :: "jschar \<Rightarrow> jschar option \<Rightarrow> csv_state \<Rightarrow> bool \<times> csv_state" where
  "csv_step ch nxt st =
     (case st of (lines, current, inQuotes, rows) \<Rightarrow>
        if ch = 0x22 then
          (if inQuotes \<and> nxt = Some 0x22 then (True, (lines, current @ [0x22], inQuotes, rows))
           else (False, (lines, current, \<not> inQuotes, rows)))
        else if ch = 0x2C \<and> \<not> inQuotes then (False, (lines @ [current], [], inQuotes, rows))
        else if (ch = 0x0A \<or> ch = 0x0D) \<and> \<not> inQuotes then
          (let (lines1, current1) =
                 (if current \<noteq> [] \<or> lines \<noteq> [] then (lines @ [current], [])
                  else (lines, current));
               (rows2, lines2) =
                 (if lines1 \<noteq> [] then (rows @ [lines1], []) else (rows, lines1))
           in (ch = 0x0D \<and> nxt = Some 0x0A, (lines2, current1, inQuotes, rows2)))
        else (False, (lines, current @ [ch], inQuotes, rows)))"

text \<open>
  The loop over the code units with its look-ahead \<open>csv[i + 1]\<close> (\<open>None\<close> past the end): the
  body is \<open>csv_step\<close>, whose first component says that the body did \<open>i++\<close>.
\<close>

fun csv_scan :: "jsstring \<Rightarrow> csv_state \<Rightarrow> csv_state" where
  "csv_scan [] st = st"
| "csv_scan (ch # rest) st =
     (case csv_step ch (case rest of [] \<Rightarrow> None | nxt # _ \<Rightarrow> Some nxt) st of
        (skip, st') \<Rightarrow> csv_scan (if skip then drop 1 rest else rest) st')"

declare csv_scan.simps(2) [simp del]

text \<open>The rows after the loop and the flush of the last field and row.\<close>

definition csv_rows :: "jsstring \<Rightarrow> jsstring list list" where
  "csv_rows csv =
     (case csv_scan csv ([], [], False, []) of
        (lines, current, inQuotes, rows) \<Rightarrow>
          if current \<noteq> [] \<or> lines \<noteq> [] then rows @ [lines @ [current]] else rows)"

definition parseCSV :: "jsstring \<Rightarrow> jsstring list \<times> jsstring list list" where
  "parseCSV csv =
     (case csv_rows csv of
        [] \<Rightarrow> ([], [])
      | header # rest \<Rightarrow> (map trim header, rest))"

text \<open>
  RFC 4180 documents, to state what the tokenizer does on them: a field is written plain
  (no quote, comma, CR or LF in it) or quoted with its quotes doubled, fields are joined by
  commas, and a record ends with LF or CRLF; the last record may go without line break.
\<close>

datatype cell = Plain jsstring | Quoted jsstring

fun content :: "cell \<Rightarrow> jsstring" where
  "content (Plain s) = s"
| "content (Quoted s) = s"

definition double_quotes :: "jsstring \<Rightarrow> jsstring" where
  "double_quotes s = concat (map (\<lambda>c. if c = 0x22 then [0x22, 0x22] else [c]) s)"

fun render_cell :: "cell \<Rightarrow> jsstring" where
  "render_cell (Plain s) = s"
| "render_cell (Quoted s) = [0x22] @ double_quotes s @ [0x22]"

fun cell_ok :: "cell \<Rightarrow> bool" where
  "cell_ok (Plain s) = list_all (\<lambda>c. c \<noteq> 0x22 \<and> c \<noteq> 0x2C \<and> c \<noteq> 0x0A \<and> c \<noteq> 0x0D) s"
| "cell_ok (Quoted s) = True"

fun render_row :: "cell list \<Rightarrow> jsstring" where
  "render_row [] = []"
| "render_row [c] = render_cell c"
| "render_row (c # cs) = render_cell c @ [0x2C] @ render_row cs"

datatype eol = LF | CRLF

fun render_eol :: "eol \<Rightarrow> jsstring" where
  "render_eol LF = [0x0A]"
| "render_eol CRLF = [0x0D, 0x0A]"

fun render_lines :: "(cell list \<times> eol) list \<Rightarrow> jsstring" where
  "render_lines [] = []"
| "render_lines ((r, e) # rs) = render_row r @ render_eol e @ render_lines rs"

definition blank_row :: "jsstring list \<Rightarrow> bool" where
  "blank_row r = (r = [] \<or> r = [[]])"

definition starts_with_quote :: "jsstring \<Rightarrow> bool" where
  "starts_with_quote s = (case s of [] \<Rightarrow> False | c # _ \<Rightarrow> c = 0x22)"

text \<open>\<open>CSV_COLUMN_MAP\<close> and the header mapping.\<close>

datatype field = SourcedId | LastName | FirstName | GradeLevel | HomeRoom | EnrollStatus
  | Email | SchoolId | Dob | Gender

definition CSV_COLUMN_MAP :: "(jsstring \<times> field) list" where
  "CSV_COLUMN_MAP = map (\<lambda>(k, f). (str k, f))
     [(''student_number'', SourcedId), (''studentnumber'', SourcedId),
      (''student number'', SourcedId), (''id'', SourcedId), (''student_id'', SourcedId),
      (''dcid'', SourcedId),
      (''last_name'', LastName), (''lastname'', LastName), (''last name'', LastName),
      (''last'', LastName),
      (''first_name'', FirstName), (''firstname'', FirstName), (''first name'', FirstName),
      (''first'', FirstName),
      (''grade_level'', GradeLevel), (''gradelevel'', GradeLevel), (''grade level'', GradeLevel),
      (''grade'', GradeLevel), (''gr'', GradeLevel),
      (''home_room'', HomeRoom), (''homeroom'', HomeRoom), (''home room'', HomeRoom),
      (''hr'', HomeRoom), (''section'', HomeRoom),
      (''enroll_status'', EnrollStatus), (''enrollstatus'', EnrollStatus),
      (''enrollment_status'', EnrollStatus), (''status'', EnrollStatus),
      (''student_email'', Email), (''email'', Email), (''email_addr'', Email),
      (''schoolid'', SchoolId), (''school_id'', SchoolId), (''school'', SchoolId),
      (''dob'', Dob), (''date_of_birth'', Dob), (''dateofbirth'', Dob),
      (''gender'', Gender), (''sex'', Gender)]"

text \<open>
  \<open>CSV_COLUMN_MAP[normalized]\<close> is truthy for a key of the table and also for a name that
  \<open>Object.prototype\<close> defines; the value found then is no field name, and what the row loop
  stores under it is kept apart in \<open>stray\<close>, under the header's name. \<open>toLowerCase\<close> is the
  platform's Unicode case mapping, a parameter here.
\<close>

datatype column = Mapped field | Inherited jsstring

definition column_of :: "jsstring \<Rightarrow> column option" where
  "column_of key =
     (case map_of CSV_COLUMN_MAP key of
        Some f \<Rightarrow> Some (Mapped f)
      | None \<Rightarrow> if key \<in> set object_prototype_keys then Some (Inherited key)
                else None)"

fun mapCSVHeaders_from :: "(jsstring \<Rightarrow> jsstring) \<Rightarrow> nat \<Rightarrow> jsstring list \<Rightarrow> (nat \<times> column) list" where
  "mapCSVHeaders_from toLowerCase i [] = []"
| "mapCSVHeaders_from toLowerCase i (h # hs) =
     (case column_of (trim (toLowerCase h)) of
        Some c \<Rightarrow> (i, c) # mapCSVHeaders_from toLowerCase (Suc i) hs
      | None \<Rightarrow> mapCSVHeaders_from toLowerCase (Suc i) hs)"

definition mapCSVHeaders :: "(jsstring \<Rightarrow> jsstring) \<Rightarrow> jsstring list \<Rightarrow> (nat \<times> column) list" where
  "mapCSVHeaders toLowerCase headers = mapCSVHeaders_from toLowerCase 0 headers"

record csv_student =
  props :: "field \<Rightarrow> jsstring option"
  extra_columns :: "jsstring \<rightharpoonup> jsstring"
  stray :: "jsstring \<rightharpoonup> jsstring"

text \<open>\<open>row[i] || \<close> the empty string.\<close>

definition cell_at :: "jsstring list \<Rightarrow> nat \<Rightarrow> jsstring" where
  "cell_at row i = (if i < length row then row ! i else [])"

fun assign_mapped :: "(nat \<times> column) list \<Rightarrow> jsstring list \<Rightarrow> csv_student \<Rightarrow> csv_student" where
  "assign_mapped [] row rcd = rcd"
| "assign_mapped ((colIdx, col) # mapping) row rcd =
     (let val = trim (cell_at row colIdx)
      in assign_mapped mapping row
           (if val \<noteq> [] then
              (case col of
                 Mapped f \<Rightarrow> rcd\<lparr>props := (props rcd)(f \<mapsto> val)\<rparr>
               | Inherited name \<Rightarrow> rcd\<lparr>stray := (stray rcd)(name \<mapsto> val)\<rparr>)
            else rcd))"

fun capture_extra :: "(nat \<times> column) list \<Rightarrow> jsstring list \<Rightarrow> jsstring list \<Rightarrow> nat
    \<Rightarrow> csv_student \<Rightarrow> csv_student" where
  "capture_extra mapping [] row i rcd = rcd"
| "capture_extra mapping (h # hs) row i rcd =
     capture_extra mapping hs row (Suc i)
       (if map_of mapping i = None \<and> trim (cell_at row i) \<noteq> []
        then rcd\<lparr>extra_columns := js_set (extra_columns rcd) h (trim (cell_at row i))\<rparr>
        else rcd)"

definition fallback_id_csv :: "(jsstring \<Rightarrow> jsstring) \<Rightarrow> csv_student \<Rightarrow> jsstring" where
  "fallback_id_csv toLowerCase rcd =
     str ''ps_'' @ toLowerCase (or_empty (props rcd LastName)) @ str ''_''
       @ toLowerCase (or_empty (props rcd FirstName))"

definition row_student :: "(jsstring \<Rightarrow> jsstring) \<Rightarrow> (nat \<times> column) list \<Rightarrow> jsstring list
    \<Rightarrow> jsstring list \<Rightarrow> csv_student list" where
  "row_student toLowerCase mapping headers row =
     (if row = [] \<or> list_all (\<lambda>c. trim c = []) row then []
      else
        (let rcd0 = \<lparr>props = (\<lambda>f. None), extra_columns = Map.empty, stray = Map.empty\<rparr>;
             rcd1 = assign_mapped mapping row rcd0;
             rcd2 = capture_extra mapping headers row 0 rcd1
         in if truthy (props rcd2 FirstName) \<or> truthy (props rcd2 LastName) then
              [if \<not> truthy (props rcd2 SourcedId)
               then rcd2\<lparr>props := (props rcd2)
                      (SourcedId \<mapsto> fallback_id_csv toLowerCase rcd2)\<rparr>
               else rcd2]
            else []))"

text \<open>
  \<open>csvText.replace(/^\xEF\xBB\xBF/, '')\<close>: the pattern is the three code units U+00EF, U+00BB,
  U+00BF at the start of the text.
\<close>

definition strip_bom :: "jsstring \<Rightarrow> jsstring" where
  "strip_bom csvText = (if take 3 csvText = [0xEF, 0xBB, 0xBF] then drop 3 csvText else csvText)"

definition parseExportCSV :: "(jsstring \<Rightarrow> jsstring) \<Rightarrow> jsstring \<Rightarrow> csv_student list" where
  "parseExportCSV toLowerCase csvText =
     (let clean = strip_bom csvText;
          (headers, rows) = parseCSV clean
      in if headers = [] \<or> rows = [] then []
         else (let mapping = mapCSVHeaders toLowerCase headers
               in if mapping = [] then []
                  else concat (map (row_student toLowerCase mapping headers) rows)))"

text \<open>
  The case mapping on ASCII text, where it agrees with the platform's, for concrete runs;
  and the texts of these runs.
\<close>

definition ascii_toLowerCase :: "jsstring \<Rightarrow> jsstring" where
  "ascii_toLowerCase s = map (\<lambda>c. if 0x41 \<le> c \<and> c \<le> 0x5A then c + 0x20 else c) s"

definition same_name_csv :: jsstring where
  "same_name_csv = str ''first,last'' @ [0x0A] @ str ''Ann,Lee'' @ [0x0A] @ str ''Ann,Lee''"

definition blank_first_line_csv :: jsstring where
  "blank_first_line_csv = [0x0A] @ str ''id,first'' @ [0x0A] @ str ''1,Bob''"

definition quoted_csv :: jsstring where
  "quoted_csv = str ''name,school'' @ [0x0D, 0x0A]
     @ str ''\"Doe, Jane\",\"Smith High, Annex'' @ [0x0A] @ str ''Bldg B\"'' @ [0x0A]
     @ str ''\"say \"\"hi\"\"\",x''"

section \<open>src/content/parsers/roster.js: parseName\<close>

text \<open>
  \<open>text.split(',')\<close> and \<open>text.split(/\s+/)\<close>, each with the field collected so far; a run of
  white space is one separator. \<open>join_with\<close> is \<open>Array.prototype.join\<close>.
\<close>

fun split_on :: "jschar \<Rightarrow> jsstring \<Rightarrow> jsstring \<Rightarrow> jsstring list" where
  "split_on sep current [] = [current]"
| "split_on sep current (c # cs) =
     (if c = sep then current # split_on sep [] cs else split_on sep (current @ [c]) cs)"

function split_spaces :: "jsstring \<Rightarrow> jsstring \<Rightarrow> jsstring list" where
  "split_spaces current [] = [current]"
| "split_spaces current (c # cs) =
     (if is_space c then current # split_spaces [] (dropWhile is_space cs)
      else split_spaces (current @ [c]) cs)"
  by pat_completeness auto
termination
  by (relation "measure (\<lambda>(current, s). length s)")
     (auto simp: length_dropWhile_le less_Suc_eq_le)

fun join_with :: "jsstring \<Rightarrow> jsstring list \<Rightarrow> jsstring" where
  "join_with sep [] = []"
| "join_with sep [x] = x"
| "join_with sep (x # xs) = x @ sep @ join_with sep xs"

text \<open>
  \<open>parseName\<close> on the cell's \<open>textContent\<close>; the result is the pair \<open>(firstName, lastName)\<close>.
\<close>

definition parseName :: "jsstring \<Rightarrow> jsstring \<times> jsstring" where
  "parseName textContent =
     (let text = trim textContent
      in if 0x2C \<in> set text then
           (case map trim (split_on 0x2C [] text) of
              lastPart # firstPart # _ \<Rightarrow> (firstPart, lastPart)
            | [lastPart] \<Rightarrow> ([], lastPart)
            | [] \<Rightarrow> ([], []))
         else
           (let parts = split_spaces [] text
            in if length parts \<ge> 2 then (hd parts, join_with [0x20] (tl parts))
               else (text, [])))"

text \<open>The white-space-delimited tokens of a text, to say what the splitter returns.\<close>

function tokens :: "jsstring \<Rightarrow> jsstring list" where
  "tokens s =
     (case dropWhile is_space s of
        [] \<Rightarrow> []
      | c # cs \<Rightarrow> takeWhile (\<lambda>x. \<not> is_space x) (c # cs)
                  # tokens (dropWhile (\<lambda>x. \<not> is_space x) (c # cs)))"
  by pat_completeness auto
termination
proof (relation "measure length")
  show "wf (measure length)" by simp
next
  fix s :: jsstring and c cs
  assume a: "dropWhile is_space s = c # cs"
  then have "\<not> is_space c"
    using hd_dropWhile [of is_space s] by simp
  then have "length (dropWhile (\<lambda>x. \<not> is_space x) (c # cs)) \<le> length cs"
    by (simp add: length_dropWhile_le)
  moreover have "length (c # cs) \<le> length s"
    using a length_dropWhile_le [of is_space s] by simp
  ultimately show "(dropWhile (\<lambda>x. \<not> is_space x) (c # cs), s) \<in> measure length"
    by simp
qed

declare tokens.simps [simp del]

text \<open>
  The splitter as the specification words it: with a comma, the part right of the comma is
  the given name and the part left of it the surname; without, the first token is the
  given name and the remainder of the text the surname.
\<close>

definition name_split_spec :: "jsstring \<Rightarrow> jsstring \<times> jsstring" where
  "name_split_spec raw =
     (let text = trim raw
      in if 0x2C \<in> set text then
           (trim (drop 1 (dropWhile (\<lambda>c. c \<noteq> 0x2C) text)), trim (takeWhile (\<lambda>c. c \<noteq> 0x2C) text))
         else
           (takeWhile (\<lambda>x. \<not> is_space x) text,
            dropWhile is_space (dropWhile (\<lambda>x. \<not> is_space x) text)))"

section \<open>src/content/crawler.js: scraping a profile page\<close>

text \<open>
  The label patterns are anchored, case-insensitive regular expressions built from
  literals, \<open>.?\<close> (at most one character that is no line terminator), optional groups and
  alternatives. \<open>rx_match\<close> returns what may remain of the subject after a match at its
  start; \<open>rx_test\<close> is \<open>pattern.test\<close> for a pattern between \<open>^\<close> and \<open>$\<close>. Without the
  \<open>u\<close> flag only ASCII letters fold onto the pattern's letters.
\<close>

datatype rx = Lit string | AnyOpt | Opt rx | Alt "rx list" | Seq "rx list"

definition lower_unit :: "jschar \<Rightarrow> jschar" where
  "lower_unit c = (if 0x41 \<le> c \<and> c \<le> 0x5A then c + 0x20 else c)"

fun ci_prefix :: "jsstring \<Rightarrow> jsstring \<Rightarrow> jsstring option" where
  "ci_prefix [] s = Some s"
| "ci_prefix (p # ps) [] = None"
| "ci_prefix (p # ps) (c # cs) = (if lower_unit c = p then ci_prefix ps cs else None)"

definition is_line_terminator :: "jschar \<Rightarrow> bool" where
  "is_line_terminator c = (c = 0x0A \<or> c = 0x0D \<or> c = 0x2028 \<or> c = 0x2029)"

fun rx_match :: "rx \<Rightarrow> jsstring \<Rightarrow> jsstring list" where
  "rx_match (Lit p) s = (case ci_prefix (str p) s of None \<Rightarrow> [] | Some rest \<Rightarrow> [rest])"
| "rx_match AnyOpt s =
     (case s of [] \<Rightarrow> [[]] | c # cs \<Rightarrow> if is_line_terminator c then [s] else [cs, s])"
| "rx_match (Opt r) s = rx_match r s @ [s]"
| "rx_match (Alt rs) s = concat (map (\<lambda>r. rx_match r s) rs)"
| "rx_match (Seq []) s = [s]"
| "rx_match (Seq (r # rs)) s = concat (map (rx_match (Seq rs)) (rx_match r s))"

definition rx_test :: "rx \<Rightarrow> jsstring \<Rightarrow> bool" where
  "rx_test r s = ([] \<in> set (rx_match r s))"

definition alternatives :: "rx list list \<Rightarrow> rx" where
  "alternatives as = Alt (map Seq as)"

text \<open>\<open>PROFILE_FIELD_PATTERNS\<close>, in the order of the object literal.\<close>

definition PROFILE_FIELD_PATTERNS :: "(string \<times> rx) list" where
  "PROFILE_FIELD_PATTERNS =
   [(''sourcedId'', alternatives
       [[Lit ''student'', AnyOpt, Alt [Lit ''number'', Lit ''id'']], [Lit ''sis'', AnyOpt, Lit ''id''],
        [Lit ''id'', AnyOpt, Lit ''number''], [Lit ''perm'', AnyOpt, Lit ''id''], [Lit ''dcid'']]),
    (''firstName'', alternatives
       [[Lit ''first'', AnyOpt, Lit ''name''], [Lit ''legal'', AnyOpt, Lit ''first''],
        [Lit ''preferred'', AnyOpt, Lit ''name'']]),
    (''lastName'', alternatives
       [[Lit ''last'', AnyOpt, Lit ''name''], [Lit ''legal'', AnyOpt, Lit ''last''], [Lit ''surname'']]),
    (''dob'', alternatives
       [[Lit ''date'', AnyOpt, Lit ''of'', AnyOpt, Lit ''birth''], [Lit ''dob''],
        [Lit ''birth'', AnyOpt, Lit ''date''], [Lit ''birthday'']]),
    (''gender'', alternatives [[Lit ''gender''], [Lit ''sex'']]),
    (''ethnicity'', alternatives [[Lit ''ethnicity''], [Lit ''race''], [Lit ''ethnic'']]),
    (''language'', alternatives
       [[Lit ''home'', AnyOpt, Lit ''language''], [Lit ''primary'', AnyOpt, Lit ''language''],
        [Lit ''language''], [Lit ''ell'']]),
    (''gradeLevel'', alternatives
       [[Lit ''grade''], [Lit ''grade'', AnyOpt, Lit ''level''], [Lit ''gr''],
        [Lit ''current'', AnyOpt, Lit ''grade'']]),
    (''address'', alternatives
       [[Lit ''address''], [Lit ''home'', AnyOpt, Lit ''address''], [Lit ''street''],
        [Lit ''mailing'', AnyOpt, Lit ''address''], [Lit ''residence'']]),
    (''phone'', alternatives
       [[Lit ''phone''], [Lit ''home'', AnyOpt, Lit ''phone''], [Lit ''student'', AnyOpt, Lit ''phone''],
        [Lit ''cell'']]),
    (''email'', alternatives
       [[Lit ''email''], [Lit ''student'', AnyOpt, Lit ''email''], [Lit ''e'', AnyOpt, Lit ''mail'']]),
    (''guardianName'', alternatives
       [[Lit ''parent''], [Lit ''guardian''], [Lit ''mother''], [Lit ''father''],
        [Lit ''parent'', AnyOpt, Alt [Lit ''1'', Lit ''name'']], [Lit ''guardian'', AnyOpt, Lit ''name''],
        [Lit ''emergency'', AnyOpt, Lit ''1'', AnyOpt, Lit ''name''], [Lit ''custodial'']]),
    (''guardianEmail'', alternatives
       [[Lit ''parent'', AnyOpt, Lit ''email''], [Lit ''guardian'', AnyOpt, Lit ''email''],
        [Lit ''family'', AnyOpt, Lit ''email'']]),
    (''guardianPhone'', alternatives
       [[Lit ''parent'', AnyOpt, Lit ''phone''], [Lit ''guardian'', AnyOpt, Lit ''phone''],
        [Lit ''home'', AnyOpt, Lit ''phone''], [Lit ''family'', AnyOpt, Lit ''phone''],
        [Lit ''mother'', AnyOpt, Lit ''phone''], [Lit ''father'', AnyOpt, Lit ''phone'']]),
    (''emergencyContact'', alternatives
       [[Lit ''emergency'', AnyOpt, Lit ''contact''], [Lit ''emergency'', AnyOpt, Lit ''name''],
        [Lit ''emergency'', AnyOpt, Alt [Lit ''2'', Lit ''3'']]]),
    (''emergencyPhone'', alternatives
       [[Lit ''emergency'', AnyOpt, Lit ''phone''],
        [Lit ''emergency'', AnyOpt, Alt [Lit ''2'', Lit ''3''], AnyOpt, Lit ''phone'']]),
    (''homeRoom'', alternatives
       [[Lit ''home'', AnyOpt, Lit ''room''], [Lit ''homeroom''], [Lit ''hr''], [Lit ''advisory''],
        [Lit ''section'']]),
    (''schoolId'', alternatives
       [[Lit ''school''], [Lit ''building''], [Lit ''campus''], [Lit ''school'', AnyOpt, Lit ''name'']]),
    (''enrollStatus'', alternatives
       [[Lit ''enroll'', AnyOpt, Lit ''status''], [Lit ''status''], [Lit ''enrollment''], [Lit ''active'']]),
    (''enrollDate'', alternatives
       [[Lit ''enroll'', AnyOpt, Lit ''date''], [Lit ''entry'', AnyOpt, Lit ''date''],
        [Lit ''admission'', AnyOpt, Lit ''date'']]),
    (''exitDate'', alternatives
       [[Lit ''exit'', AnyOpt, Lit ''date''], [Lit ''withdrawal'', AnyOpt, Lit ''date''],
        [Lit ''leave'', AnyOpt, Lit ''date'']]),
    (''gpa'', alternatives
       [[Lit ''gpa''], [Lit ''cumulative'', AnyOpt, Lit ''gpa''], [Lit ''grade'', AnyOpt, Lit ''point''],
        [Lit ''weighted'', AnyOpt, Lit ''gpa'']]),
    (''credits'', alternatives
       [[Lit ''credits''], [Lit ''total'', AnyOpt, Lit ''credits''],
        [Lit ''earned'', AnyOpt, Lit ''credits'']]),
    (''iep'', alternatives
       [[Lit ''iep''], [Lit ''special'', AnyOpt, Lit ''ed''], [Lit ''sped''], [Lit ''individualized''],
        [Lit ''504'', AnyOpt, Lit ''plan''], [Lit ''section'', AnyOpt, Lit ''504'']]),
    (''section504'', alternatives
       [[Lit ''504''], [Lit ''section'', AnyOpt, Lit ''504''], [Lit ''accommodation'']]),
    (''lunchStatus'', alternatives
       [[Lit ''lunch''], [Lit ''free'', AnyOpt, Opt (Lit ''reduced'')],
        [Lit ''meal'', AnyOpt, Lit ''status''], [Lit ''frl'']]),
    (''transportation'', alternatives
       [[Lit ''transport''], [Lit ''bus''], [Lit ''transportation''], [Lit ''route'']])]"

fun first_match :: "(string \<times> rx) list \<Rightarrow> jsstring \<Rightarrow> string option" where
  "first_match [] s = None"
| "first_match ((field, pattern) # rest) s =
     (if rx_test pattern s then Some field else first_match rest s)"

text \<open>
  The record under construction: its string-valued properties by name (\<open>sourcedId\<close>,
  \<open>firstName\<close>, \<dots>), and the two dictionaries \<open>extra\<close> and \<open>schedule\<close>.
\<close>

record DeepStudentRecord =
  named :: "jsstring \<rightharpoonup> jsstring"
  extra_labels :: "jsstring \<rightharpoonup> jsstring"
  schedule :: "jsstring \<rightharpoonup> jsstring"

text \<open>\<open>label.replace(/[:\s*]+$/, '').trim()\<close>, then \<open>processLabelValue\<close>.\<close>

definition clean_label :: "jsstring \<Rightarrow> jsstring" where
  "clean_label label =
     trim (rev (dropWhile (\<lambda>c. c = 0x3A \<or> is_space c \<or> c = 0x2A) (rev label)))"

definition processLabelValue :: "jsstring \<Rightarrow> jsstring \<Rightarrow> DeepStudentRecord \<Rightarrow> DeepStudentRecord" where
  "processLabelValue label value rcd =
     (if label = [] \<or> value = [] \<or> length value > 500 then rcd
      else (let cleanLabel = clean_label label
            in if cleanLabel = [] then rcd
               else (case first_match PROFILE_FIELD_PATTERNS cleanLabel of
                       Some field \<Rightarrow>
                         if \<not> truthy (named rcd (str field))
                         then rcd\<lparr>named := (named rcd)(str field \<mapsto> value)\<rparr> else rcd
                     | None \<Rightarrow>
                         rcd\<lparr>extra_labels := js_set (extra_labels rcd) cleanLabel value\<rparr>)))"






datatype label_lookup = SelectorError | NoLabel | LabelFound jsstring





















section \<open>src/content/crawler.js: deepCrawl\<close>
















section \<open>Session token: cached value wins\<close>

lemma getToken_cached:
  assumes "sessionToken v = Some t" and "t \<noteq> []"
  shows "getToken cr v p = (Some t, v)"
  using assms by (simp add: getToken_def)

lemma getToken_after_clear:
  assumes "getToken cr (clearSession v) p = (Some t, v')"
  shows "\<exists>pw blob. p = Some pw \<and> pw \<noteq> [] \<and> encrypted_token v = Some blob \<and> blob \<noteq> []
           \<and> decrypt cr blob pw = Some t"
  using assms
  by (auto simp: getToken_def clearSession_def split: option.splits if_splits)

text \<open>
  C10. Once a non-empty token sits in the session variable, put there by \<open>setToken\<close> or by
  a successful decrypt inside \<open>getToken\<close>, every later \<open>getToken\<close> returns it whatever the
  passphrase argument is (wrong, empty or absent) and leaves the state alone; the stored
  blob is not consulted. After \<open>clearSession\<close>, \<open>getToken\<close> yields a token only for a
  non-empty passphrase under which the stored blob decrypts to that token.
\<close>

theorem getToken_cached_for_any_passphrase:
  assumes "t \<noteq> []"
  shows "(sessionToken v = Some t \<longrightarrow> getToken cr v p = (Some t, v))
       \<and> getToken cr (setToken cr v t pw) p = (Some t, setToken cr v t pw)
       \<and> (getToken cr v p0 = (Some t, v') \<longrightarrow> getToken cr v' p = (Some t, v'))
       \<and> (getToken cr (clearSession v) p = (Some t, v') \<longrightarrow>
            (\<exists>pw' blob. p = Some pw' \<and> pw' \<noteq> [] \<and> encrypted_token v = Some blob \<and> blob \<noteq> []
                \<and> decrypt cr blob pw' = Some t))"
proof (intro conjI impI)
  assume "sessionToken v = Some t"
  then show "getToken cr v p = (Some t, v)"
    using assms by (rule getToken_cached)
next
  have "sessionToken (setToken cr v t pw) = Some t"
    by (simp add: setToken_def)
  then show "getToken cr (setToken cr v t pw) p = (Some t, setToken cr v t pw)"
    using assms by (rule getToken_cached)
next
  assume g: "getToken cr v p0 = (Some t, v')"
  have "sessionToken v' = Some t"
    using g by (auto simp: getToken_def split: option.splits if_splits)
  then show "getToken cr v' p = (Some t, v')"
    using assms by (rule getToken_cached)
next
  assume "getToken cr (clearSession v) p = (Some t, v')"
  then show "\<exists>pw' blob. p = Some pw' \<and> pw' \<noteq> [] \<and> encrypted_token v = Some blob \<and> blob \<noteq> []
                \<and> decrypt cr blob pw' = Some t"
    by (rule getToken_after_clear)
qed

theorem getToken_cached_for_any_passphrase_witness:
  "str ''tok'' \<noteq> []
   \<and> getToken prefix_cipher (setToken prefix_cipher empty_vault (str ''tok'') (str ''pw''))
         (Some (str ''wrong''))
       = (Some (str ''tok''), setToken prefix_cipher empty_vault (str ''tok'') (str ''pw''))
   \<and> getToken prefix_cipher (setToken prefix_cipher empty_vault (str ''tok'') (str ''pw'')) None
       = (Some (str ''tok''), setToken prefix_cipher empty_vault (str ''tok'') (str ''pw''))
   \<and> fst (getToken prefix_cipher
          (clearSession (setToken prefix_cipher empty_vault (str ''tok'') (str ''pw'')))
          (Some (str ''wrong''))) = None
   \<and> fst (getToken prefix_cipher
          (clearSession (setToken prefix_cipher empty_vault (str ''tok'') (str ''pw'')))
          (Some (str ''pw''))) = Some (str ''tok'')"
proof -
  have h: "str ''tok'' \<noteq> []"
    by (simp add: str_def)
  note T = getToken_cached_for_any_passphrase [OF h, where cr = prefix_cipher
      and v = empty_vault and pw = "str ''pw''"]
  have a: "getToken prefix_cipher (setToken prefix_cipher empty_vault (str ''tok'') (str ''pw''))
         (Some (str ''wrong''))
       = (Some (str ''tok''), setToken prefix_cipher empty_vault (str ''tok'') (str ''pw''))"
    by (rule T [where p = "Some (str ''wrong'')", THEN conjunct2, THEN conjunct1])
  have b: "getToken prefix_cipher (setToken prefix_cipher empty_vault (str ''tok'') (str ''pw'')) None
       = (Some (str ''tok''), setToken prefix_cipher empty_vault (str ''tok'') (str ''pw''))"
    by (rule T [where p = None, THEN conjunct2, THEN conjunct1])
  have c: "fst (getToken prefix_cipher
          (clearSession (setToken prefix_cipher empty_vault (str ''tok'') (str ''pw'')))
          (Some (str ''wrong''))) = None"
    by (simp add: getToken_def clearSession_def setToken_def prefix_cipher_def empty_vault_def
        str_def)
  have d: "fst (getToken prefix_cipher
          (clearSession (setToken prefix_cipher empty_vault (str ''tok'') (str ''pw'')))
          (Some (str ''pw''))) = Some (str ''tok'')"
    by (simp add: getToken_def clearSession_def setToken_def prefix_cipher_def empty_vault_def
        str_def)
  show ?thesis using h a b c d by blast
qed

section \<open>Synchronizer: batches and outcome accounting\<close>

lemma upt_batches:
  assumes "BATCH_SIZE * k < n"
  shows "[k..<num_batches n] = k # [Suc k..<num_batches n]"
proof -
  have "k < num_batches n" using assms by (simp add: num_batches_def BATCH_SIZE_def)
  then show ?thesis by (rule upt_conv_Cons)
qed

lemma upt_batches_done:
  assumes "\<not> BATCH_SIZE * k < n"
  shows "[k..<num_batches n] = []"
  using assms by (simp add: num_batches_def BATCH_SIZE_def)

lemma syncLoop_batches:
  assumes "i = BATCH_SIZE * length (requests run)"
  shows "syncLoop net endpoint token students i run =
     (let ks = [length (requests run)..<num_batches (length students)];
          rs = (\<lambda>k. batch_result net endpoint token students k)
      in \<lparr>outcome = \<lparr>success = success (outcome run) + (\<Sum>k\<leftarrow>ks. if batch_ok (rs k) then length (batch_of students k) else 0),
                      failed = failed (outcome run) + (\<Sum>k\<leftarrow>ks. if batch_ok (rs k) then 0 else length (batch_of students k)),
                      errors = errors (outcome run) @ map (\<lambda>k. batch_error k (rs k)) (filter (\<lambda>k. \<not> batch_ok (rs k)) ks)\<rparr>,
          requests = requests run @ map (\<lambda>k. sync_request endpoint token (batch_of students k)) ks,
          progress = progress run @ map (\<lambda>k. (min (BATCH_SIZE * k + BATCH_SIZE) (length students), length students)) ks\<rparr>)"
  using assms
proof (induction net endpoint token students i run rule: syncLoop.induct)
  case (1 net endpoint token students i run)
  show ?case
  proof (cases "i < length students")
    case False
    have e: "[length (requests run)..<num_batches (length students)] = []"
      using False "1.prems" upt_batches_done by simp
    show ?thesis
      by (subst syncLoop.simps) (simp only: e Let_def, simp add: False)
  next
    case True
    let ?k = "length (requests run)"
    have ks: "[?k..<num_batches (length students)] = ?k # [Suc ?k..<num_batches (length students)]"
      using True "1.prems" upt_batches by simp
    have sl: "slice students (BATCH_SIZE * ?k) (BATCH_SIZE * ?k + BATCH_SIZE) = batch_of students ?k"
      by (simp add: slice_def batch_of_def)
    show ?thesis
      apply (subst syncLoop.simps)
      apply (simp only: True if_True Let_def)
      apply (subst "1.IH" [OF True refl refl refl refl])
       apply (simp add: "1.prems")
      apply (simp add: ks sl Let_def batch_result_def "1.prems" split: fetch_result.splits)
      done
  qed
qed


lemma show_nat_2: "show_nat 2 = [50]"
  by (simp add: show_nat.simps)

lemma concat_batches_take:
  "concat (map (batch_of xs) [0..<m]) = take (BATCH_SIZE * m) xs"
proof (induction m)
  case 0
  show ?case by simp
next
  case (Suc m)
  have "concat (map (batch_of xs) [0..<Suc m])
          = concat (map (batch_of xs) [0..<m]) @ batch_of xs m"
    by simp
  also have "\<dots> = take (BATCH_SIZE * m) xs @ take BATCH_SIZE (drop (BATCH_SIZE * m) xs)"
    by (simp only: Suc batch_of_def)
  also have "\<dots> = take (BATCH_SIZE * m + BATCH_SIZE) xs"
    by (rule take_add [symmetric])
  also have "BATCH_SIZE * m + BATCH_SIZE = BATCH_SIZE * Suc m"
    by simp
  finally show ?case .
qed

lemma concat_batches: "concat (map (batch_of xs) [0..<num_batches (length xs)]) = xs"
proof -
  have "length xs \<le> BATCH_SIZE * num_batches (length xs)"
    by (simp add: num_batches_def BATCH_SIZE_def)
  then show ?thesis by (simp add: concat_batches_take)
qed

lemma sum_split_batches:
  "(\<Sum>k\<leftarrow>ks. if P k then f k else 0) + (\<Sum>k\<leftarrow>ks. if P k then 0 else f k)
     = (\<Sum>k\<leftarrow>ks. (f k :: nat))"
  by (induction ks) auto

text \<open>
  C3. With a token and an endpoint at hand, \<open>syncStudents\<close> sends exactly the consecutive
  batches of 50 records (the last one possibly shorter), one request per batch, in order
  and whatever the earlier batches did; the requests' bodies put together are the input.
  A batch counts with its full size into \<open>success\<close> when the response status is 2xx and
  into \<open>failed\<close> otherwise, and every failed batch appends its one error string, in order;
  the two counts add up to the number of records. For 120 records where only the second
  call fails this gives batches of 50, 50 and 20, \<open>success = 70\<close> and \<open>failed = 50\<close>.
\<close>

theorem syncStudents_batches:
  assumes "getToken cr v passphrase = (Some token, v')" and "token \<noteq> []"
    and "capsuleEndpoint v' = Some endpoint"
  shows "\<exists>run. syncStudents cr net v students passphrase = (Inr run, v')
     \<and> requests run = map (\<lambda>k. sync_request endpoint token (batch_of students k))
          [0..<num_batches (length students)]
     \<and> concat (map students_body (requests run)) = students
     \<and> success (outcome run) =
          (\<Sum>k\<leftarrow>[0..<num_batches (length students)].
             if batch_ok (batch_result net endpoint token students k)
             then length (batch_of students k) else 0)
     \<and> failed (outcome run) =
          (\<Sum>k\<leftarrow>[0..<num_batches (length students)].
             if batch_ok (batch_result net endpoint token students k)
             then 0 else length (batch_of students k))
     \<and> errors (outcome run) =
          map (\<lambda>k. batch_error k (batch_result net endpoint token students k))
            (filter (\<lambda>k. \<not> batch_ok (batch_result net endpoint token students k))
               [0..<num_batches (length students)])
     \<and> success (outcome run) + failed (outcome run) = length students"
proof -
  let ?init = "\<lparr>outcome = \<lparr>success = 0, failed = 0, errors = []\<rparr>, requests = [], progress = []\<rparr>"
  let ?run = "syncLoop net endpoint token students 0 ?init"
  let ?ks = "[0..<num_batches (length students)]"
  have run: "syncStudents cr net v students passphrase = (Inr ?run, v')"
    using assms by (simp add: syncStudents_def)
  note L = syncLoop_batches [of 0 ?init net endpoint token students, simplified Let_def]
  have rq: "requests ?run = map (\<lambda>k. sync_request endpoint token (batch_of students k)) ?ks"
    by (simp add: L)
  have body: "concat (map students_body (requests ?run)) = students"
    by (simp add: rq sync_request_def comp_def concat_batches)
  have s: "success (outcome ?run) =
          (\<Sum>k\<leftarrow>?ks. if batch_ok (batch_result net endpoint token students k)
             then length (batch_of students k) else 0)"
    by (simp add: L)
  have f: "failed (outcome ?run) =
          (\<Sum>k\<leftarrow>?ks. if batch_ok (batch_result net endpoint token students k)
             then 0 else length (batch_of students k))"
    by (simp add: L)
  have e: "errors (outcome ?run) =
          map (\<lambda>k. batch_error k (batch_result net endpoint token students k))
            (filter (\<lambda>k. \<not> batch_ok (batch_result net endpoint token students k)) ?ks)"
    by (simp add: L)
  have "(\<Sum>k\<leftarrow>?ks. length (batch_of students k)) = length (concat (map (batch_of students) ?ks))"
    by (simp add: length_concat comp_def)
  then have "success (outcome ?run) + failed (outcome ?run) = length students"
    by (simp only: s f sum_split_batches concat_batches)
  then show ?thesis using run rq body s f e by blast
qed

lemma upt_0_3: "[0..<3] = [0, 1, 2]"
  by (simp add: upt_rec)

theorem syncStudents_batches_witness:
  "\<exists>run. syncStudents prefix_cipher second_call_fails ready_vault (replicate 120 demo_student) None
        = (Inr run, ready_vault)
     \<and> map (length \<circ> students_body) (requests run) = [50, 50, 20]
     \<and> success (outcome run) = 70 \<and> failed (outcome run) = 50
     \<and> errors (outcome run) = [str ''Batch 2: Failed to fetch'']"
proof -
  have g: "getToken prefix_cipher ready_vault None = (Some (str ''tok''), ready_vault)"
    by (simp add: getToken_def ready_vault_def str_def)
  have t: "str ''tok'' \<noteq> []"
    by (simp add: str_def)
  have c: "capsuleEndpoint ready_vault = Some (str ''https://capsule.example'')"
    by (simp add: capsuleEndpoint_def ready_vault_def str_def)
  have n: "[0..<num_batches (length (replicate 120 demo_student))] = [0, 1, 2]"
    by (simp add: num_batches_def BATCH_SIZE_def upt_0_3)
  obtain run where
    r: "syncStudents prefix_cipher second_call_fails ready_vault (replicate 120 demo_student) None
        = (Inr run, ready_vault)"
    and rq: "requests run = map (\<lambda>k. sync_request (str ''https://capsule.example'') (str ''tok'')
               (batch_of (replicate 120 demo_student) k)) [0, 1, 2]"
    and s: "success (outcome run) =
          (\<Sum>k\<leftarrow>[0, 1, 2].
             if batch_ok (batch_result second_call_fails (str ''https://capsule.example'')
                   (str ''tok'') (replicate 120 demo_student) k)
             then length (batch_of (replicate 120 demo_student) k) else 0)"
    and f: "failed (outcome run) =
          (\<Sum>k\<leftarrow>[0, 1, 2].
             if batch_ok (batch_result second_call_fails (str ''https://capsule.example'')
                   (str ''tok'') (replicate 120 demo_student) k)
             then 0 else length (batch_of (replicate 120 demo_student) k))"
    and e: "errors (outcome run) =
          map (\<lambda>k. batch_error k (batch_result second_call_fails (str ''https://capsule.example'')
                   (str ''tok'') (replicate 120 demo_student) k))
            (filter (\<lambda>k. \<not> batch_ok (batch_result second_call_fails
                   (str ''https://capsule.example'') (str ''tok'') (replicate 120 demo_student) k))
               [0, 1, 2])"
    using syncStudents_batches [OF g t c, of second_call_fails "replicate 120 demo_student"]
    unfolding n by blast
  have ok: "batch_ok (batch_result second_call_fails ep tk xs k) = (k \<noteq> 1)" for ep tk xs k
    by (simp add: batch_result_def second_call_fails_def response_ok_def)
  have 1: "map (length \<circ> students_body) (requests run) = [50, 50, 20]"
    by (simp add: rq sync_request_def batch_of_def BATCH_SIZE_def)
  have 2: "success (outcome run) = 70"
    by (simp add: s ok batch_of_def BATCH_SIZE_def)
  have 3: "failed (outcome run) = 50"
    by (simp add: f ok batch_of_def BATCH_SIZE_def)
  have 4: "errors (outcome run) = [str ''Batch 2: Failed to fetch'']"
  proof -
    have fl: "filter (\<lambda>k. \<not> batch_ok (batch_result second_call_fails
                   (str ''https://capsule.example'') (str ''tok'') (replicate 120 demo_student) k))
               [0, 1, 2] = [1]"
      by (simp add: ok)
    have r1: "batch_result second_call_fails ep tk xs 1 = Rejected (str ''Failed to fetch'')"
      for ep tk xs
      by (simp add: batch_result_def second_call_fails_def)
    have sn: "show_nat (BATCH_SIZE * 1 div BATCH_SIZE + 1) = [50]"
    proof -
      have "BATCH_SIZE * 1 div BATCH_SIZE + 1 = 2"
        by (simp add: BATCH_SIZE_def)
      then show ?thesis
        by (simp only: show_nat_2)
    qed
    have "thrown_error (BATCH_SIZE * 1) m = str ''Batch '' @ [50] @ str '': '' @ m" for m
      by (simp only: thrown_error_def sn)
    then have be: "batch_error 1 (Rejected (str ''Failed to fetch''))
                     = str ''Batch 2: Failed to fetch''"
      by (simp add: str_def)
    show ?thesis
      by (simp only: e fl list.map r1 be)
  qed
  show ?thesis
    by (rule exI [of _ run]) (simp only: r 1 2 3 4 simp_thms)
qed

section \<open>Differ: changed records and the new index\<close>

lemma js_get_differs: "(js_get obj key \<noteq> String h) = (obj key \<noteq> Some h)"
  by (simp add: js_get_def split: option.splits)

lemma diffWorkerLoop_eq: "diffWorkerLoop sha xs prior acc = diffLoop sha xs prior acc"
  by (induction sha xs prior acc rule: diffLoop.induct) (simp_all add: hashStudent_def Let_def)

lemma diffLoop_append:
  "diffLoop sha (xs @ ys) prior acc = diffLoop sha ys prior (diffLoop sha xs prior acc)"
  by (induction sha xs prior acc rule: diffLoop.induct) (simp_all add: Let_def)

lemma diffLoop_changed:
  "fst (diffLoop sha xs prior (ch, nh)) = ch @ filter (is_changed sha prior) xs"
  by (induction xs arbitrary: ch nh)
     (auto simp: Let_def js_get_differs is_changed_def split: option.splits)

lemma diffLoop_snoc:
  "snd (diffLoop sha (xs @ [x]) prior acc)
     = js_set (snd (diffLoop sha xs prior acc)) (sourcedId x) (hashStudent sha x)"
  by (cases "diffLoop sha xs prior acc") (simp add: diffLoop_append Let_def)

lemma diffLoop_other_keys:
  "k \<notin> sourcedId ` set xs \<Longrightarrow> snd (diffLoop sha xs prior (ch, nh)) k = nh k"
  by (induction xs arbitrary: ch nh) (auto simp: Let_def js_set_def)

lemma diffLoop_entry:
  assumes "str ''__proto__'' \<notin> sourcedId ` set xs" and "s \<in> set xs"
  shows "snd (diffLoop sha xs prior acc) (sourcedId s)
           = Some (hashStudent sha (last (filter (\<lambda>r. sourcedId r = sourcedId s) xs)))"
  using assms
proof (induction xs rule: rev_induct)
  case Nil
  then show ?case by simp
next
  case (snoc x xs)
  have np: "sourcedId x \<noteq> str ''__proto__''"
    using snoc.prems(1) by auto
  have step: "snd (diffLoop sha (xs @ [x]) prior acc)
                = (snd (diffLoop sha xs prior acc))(sourcedId x \<mapsto> hashStudent sha x)"
    by (simp add: diffLoop_snoc js_set_def np)
  show ?case
  proof (cases "sourcedId x = sourcedId s")
    case True
    then show ?thesis by (simp add: step)
  next
    case False
    then have "s \<in> set xs" using snoc.prems by auto
    moreover have "str ''__proto__'' \<notin> sourcedId ` set xs" using snoc.prems(1) by auto
    ultimately have "snd (diffLoop sha xs prior acc) (sourcedId s)
           = Some (hashStudent sha (last (filter (\<lambda>r. sourcedId r = sourcedId s) xs)))"
      using snoc.IH by blast
    then show ?thesis using False by (simp add: step)
  qed
qed

lemma filter_same_key:
  "distinct (map f xs) \<Longrightarrow> x \<in> set xs \<Longrightarrow> filter (\<lambda>y. f y = f x) xs = [x]"
proof (induction xs)
  case Nil
  then show ?case by simp
next
  case (Cons a xs)
  show ?case
  proof (cases "a = x")
    case True
    have "f x \<notin> f ` set xs" using Cons.prems True by simp
    then have "\<forall>y\<in>set xs. f y \<noteq> f x" by (metis imageI)
    then have "filter (\<lambda>y. f y = f x) xs = []" by (simp add: filter_empty_conv)
    then show ?thesis using True by simp
  next
    case False
    then have "x \<in> set xs" using Cons.prems by simp
    moreover have "f a \<noteq> f x" using Cons.prems \<open>x \<in> set xs\<close> by auto
    ultimately show ?thesis using Cons by simp
  qed
qed

lemma hex_digit_in: "d < 16 \<Longrightarrow> hex_digit d \<in> hex_digits"
proof -
  assume "d < 16"
  then have "d = 0 \<or> d = 1 \<or> d = 2 \<or> d = 3 \<or> d = 4 \<or> d = 5 \<or> d = 6 \<or> d = 7
      \<or> d = 8 \<or> d = 9 \<or> d = 10 \<or> d = 11 \<or> d = 12 \<or> d = 13 \<or> d = 14 \<or> d = 15"
    by arith
  then show ?thesis by (elim disjE) (simp_all add: hex_digit_def hex_digits_def str_def)
qed

lemma hex_encode_shape:
  "set (hex_encode bs) \<subseteq> hex_digits \<and> length (hex_encode bs) = 2 * length bs"
proof (induction bs)
  case Nil
  show ?case by (simp add: hex_encode_def)
next
  case (Cons b bs)
  have "unat b < 256" using unsigned_less [of b, where ?'a = nat] by simp
  then have "unat b div 16 < 16" by simp
  then show ?case using Cons by (simp add: hex_encode_def hex_digit_in)
qed

lemma diffStudents_changed:
  "fst (diffStudents sha students prior) = filter (is_changed sha prior) students"
  by (simp add: diffStudents_def diffLoop_changed)

lemma diffStudents_dom:
  assumes "str ''__proto__'' \<notin> sourcedId ` set students"
  shows "dom (snd (diffStudents sha students prior)) = sourcedId ` set students"
proof (rule set_eqI)
  fix k
  show "k \<in> dom (snd (diffStudents sha students prior)) \<longleftrightarrow> k \<in> sourcedId ` set students"
  proof (cases "k \<in> sourcedId ` set students")
    case True
    then obtain s where "s \<in> set students" and "k = sourcedId s" by auto
    then show ?thesis
      using diffLoop_entry [OF assms, of s sha prior "([], Map.empty)"] True
      by (simp add: diffStudents_def domI)
  next
    case False
    then show ?thesis
      by (simp add: diffStudents_def diffLoop_other_keys domIff)
  qed
qed

text \<open>
  Idempotence does hold for pairwise distinct ids none of which is \<open>__proto__\<close>.
\<close>

lemma diffStudents_idempotent:
  assumes "distinct (map sourcedId students)"
    and "str ''__proto__'' \<notin> sourcedId ` set students"
  shows "fst (diffStudents sha students (snd (diffStudents sha students prior))) = []"
proof -
  have "\<not> is_changed sha (snd (diffStudents sha students prior)) s" if "s \<in> set students" for s
    using that diffLoop_entry [OF assms(2) that, of sha prior "([], Map.empty)"]
      filter_same_key [OF assms(1) that]
    by (simp add: is_changed_def diffStudents_def)
  then show ?thesis
    by (simp add: diffStudents_changed filter_empty_conv)
qed

text \<open>
  C1, as amended. For every record list, prior index and digest, the changed sequence is
  exactly the records, in input order, whose id is absent from the prior index or whose
  hash differs from the stored value, and the worker's copy of the function computes the
  same pair. When no record has the id \<open>__proto__\<close>, the keys of \<open>newHashes\<close> are exactly
  the ids of the input (so an id only the prior index has is dropped), the value under an
  id is the hex digest of the last input record with that id, hence of each record itself
  when the ids are pairwise distinct, and every value is a string of hex digits.
\<close>

theorem diffStudents_changed_and_index:
  "fst (diffStudents sha students prior) = filter (is_changed sha prior) students
   \<and> diffStudentsInWorker sha students prior = diffStudents sha students prior
   \<and> (str ''__proto__'' \<notin> sourcedId ` set students \<longrightarrow>
        dom (snd (diffStudents sha students prior)) = sourcedId ` set students
        \<and> (\<forall>s\<in>set students. snd (diffStudents sha students prior) (sourcedId s)
              = Some (hashStudent sha (last (filter (\<lambda>r. sourcedId r = sourcedId s) students))))
        \<and> (distinct (map sourcedId students) \<longrightarrow>
             (\<forall>s\<in>set students. snd (diffStudents sha students prior) (sourcedId s)
                = Some (hashStudent sha s)))
        \<and> (\<forall>h\<in>ran (snd (diffStudents sha students prior)). set h \<subseteq> hex_digits))"
proof (intro conjI impI ballI)
  show "fst (diffStudents sha students prior) = filter (is_changed sha prior) students"
    by (rule diffStudents_changed)
next
  show "diffStudentsInWorker sha students prior = diffStudents sha students prior"
    by (simp add: diffStudentsInWorker_def diffStudents_def diffWorkerLoop_eq)
next
  assume "str ''__proto__'' \<notin> sourcedId ` set students"
  then show "dom (snd (diffStudents sha students prior)) = sourcedId ` set students"
    by (rule diffStudents_dom)
next
  fix s
  assume "str ''__proto__'' \<notin> sourcedId ` set students" and "s \<in> set students"
  then show "snd (diffStudents sha students prior) (sourcedId s)
      = Some (hashStudent sha (last (filter (\<lambda>r. sourcedId r = sourcedId s) students)))"
    unfolding diffStudents_def by (rule diffLoop_entry)
next
  fix s
  assume np: "str ''__proto__'' \<notin> sourcedId ` set students" and d: "distinct (map sourcedId students)"
    and s: "s \<in> set students"
  show "snd (diffStudents sha students prior) (sourcedId s) = Some (hashStudent sha s)"
    using diffLoop_entry [OF np s, of sha prior "([], Map.empty)"] filter_same_key [OF d s]
    by (simp add: diffStudents_def)
next
  fix h
  assume np: "str ''__proto__'' \<notin> sourcedId ` set students"
    and "h \<in> ran (snd (diffStudents sha students prior))"
  then obtain k where k: "snd (diffStudents sha students prior) k = Some h"
    by (auto simp: ran_def)
  then have "k \<in> sourcedId ` set students"
    using diffStudents_dom [OF np, of sha prior] by blast
  then obtain s where s: "s \<in> set students" and ks: "k = sourcedId s" by auto
  have "h = hashStudent sha (last (filter (\<lambda>r. sourcedId r = sourcedId s) students))"
    using diffLoop_entry [OF np s, of sha prior "([], Map.empty)"] k ks
    by (simp add: diffStudents_def)
  then show "set h \<subseteq> hex_digits"
    using hex_encode_shape by (simp add: hashStudent_def)
qed

text \<open>
  C2. Running the differ a second time on the same records with the index of the first
  run should report no change. For a single record whose id is \<open>__proto__\<close> the first run
  returns an empty index, and the second run reports the record as changed again.
\<close>

theorem diffStudents_proto_id_changed_again:
  "snd (diffStudents sha [proto_student] Map.empty) = Map.empty
   \<and> fst (diffStudents sha [proto_student] (snd (diffStudents sha [proto_student] Map.empty)))
       = [proto_student]"
  by (simp add: diffStudents_def Let_def js_set_def js_get_def proto_student_def)

lemma normalized_ann7:
  "normalized ann7 = str ''{\"id\":\"7\",\"fn\":\"Ann\",\"ln\":\"Lee\",\"gr\":\"\",\"hr\":\"\",\"es\":\"\",\"em\":\"\",\"si\":\"\"}''"
  by (simp add: normalized_def ann7_def json_quote_def str_def is_high_surrogate_def
      is_low_surrogate_def)

lemma serialisations_differ: "utf8_encode (normalized ann7) \<noteq> utf8_encode (normalized bob7)"
  by (simp add: normalized_def ann7_def bob7_def json_quote_def str_def is_high_surrogate_def
      is_low_surrogate_def utf8_code_point_def)

text \<open>
  The index has one entry per id, not per record: of two records with the same id the
  later one's digest is stored, so the earlier record's digest is not the value under its
  id unless the digest collides on two different serialisations.
\<close>

theorem diffStudents_duplicate_id_counterexample:
  "(\<forall>sha. snd (diffStudents sha [ann7, bob7] Map.empty) (sourcedId ann7)
            = Some (hex_encode (sha (utf8_encode (normalized bob7)))))
   \<and> utf8_encode (normalized ann7) \<noteq> utf8_encode (normalized bob7)
   \<and> \<not> (\<forall>sha students prior. \<forall>s\<in>set students.
          snd (diffStudents sha students prior) (sourcedId s) = Some (hashStudent sha s))"
proof (intro conjI allI)
  fix sha
  show "snd (diffStudents sha [ann7, bob7] Map.empty) (sourcedId ann7)
            = Some (hex_encode (sha (utf8_encode (normalized bob7))))"
    by (simp add: diffStudents_def Let_def js_set_def hashStudent_def ann7_def bob7_def str_def)
next
  show ne: "utf8_encode (normalized ann7) \<noteq> utf8_encode (normalized bob7)"
    by (rule serialisations_differ)
  let ?sha = "\<lambda>bs. if bs = utf8_encode (normalized ann7) then [0] else [1 :: byte]"
  show "\<not> (\<forall>sha students prior. \<forall>s\<in>set students.
          snd (diffStudents sha students prior) (sourcedId s) = Some (hashStudent sha s))"
  proof
    assume "\<forall>sha students prior. \<forall>s\<in>set students.
          snd (diffStudents sha students prior) (sourcedId s) = Some (hashStudent sha s)"
    then have "snd (diffStudents ?sha [ann7, bob7] Map.empty) (sourcedId ann7)
                 = Some (hashStudent ?sha ann7)"
      by (metis list.set_intros(1))
    moreover have "snd (diffStudents ?sha [ann7, bob7] Map.empty) (sourcedId ann7)
                 = Some (hashStudent ?sha bob7)"
      by (simp add: diffStudents_def Let_def js_set_def ann7_def bob7_def str_def)
    ultimately have "hashStudent ?sha ann7 = hashStudent ?sha bob7"
      by simp
    then have "hex_encode [0] = hex_encode [1]"
      using ne by (simp add: hashStudent_def)
    then show False
      by (simp add: hex_encode_def hex_digit_def)
  qed
qed

theorem diffStudents_changed_and_index_witness:
  "str ''__proto__'' \<notin> sourcedId ` set [ann7, cy9]
   \<and> distinct (map sourcedId [ann7, cy9])
   \<and> fst (diffStudents stub_digest [ann7, cy9] [str ''7'' \<mapsto> hashStudent stub_digest ann7])
       = [cy9]
   \<and> dom (snd (diffStudents stub_digest [ann7, cy9] [str ''7'' \<mapsto> hashStudent stub_digest ann7]))
       = {str ''7'', str ''9''}
   \<and> snd (diffStudents stub_digest [ann7, cy9] [str ''7'' \<mapsto> hashStudent stub_digest ann7])
         (str ''7'') = Some (hashStudent stub_digest ann7)
   \<and> snd (diffStudents stub_digest [ann7, cy9] [str ''7'' \<mapsto> hashStudent stub_digest ann7])
         (str ''9'') = Some (hashStudent stub_digest cy9)"
proof -
  let ?prior = "[str ''7'' \<mapsto> hashStudent stub_digest ann7]"
  have ids: "sourcedId ann7 = str ''7''" "sourcedId cy9 = str ''9''"
    by (simp_all add: ann7_def cy9_def)
  have ne: "str ''9'' \<noteq> str ''7''" "str ''__proto__'' \<noteq> str ''7''" "str ''__proto__'' \<noteq> str ''9''"
    by (simp_all add: str_def)
  have np: "str ''__proto__'' \<notin> sourcedId ` set [ann7, cy9]"
    using ne by (simp add: ids)
  have d: "distinct (map sourcedId [ann7, cy9])"
    using ne by (simp add: ids)
  note T = diffStudents_changed_and_index [of stub_digest "[ann7, cy9]" ?prior]
  have ch: "fst (diffStudents stub_digest [ann7, cy9] ?prior) = [cy9]"
    using T ne by (simp add: is_changed_def ids)
  have dm: "dom (snd (diffStudents stub_digest [ann7, cy9] ?prior)) = {str ''7'', str ''9''}"
    using T np by (simp add: ids)
  have e: "\<forall>s\<in>set [ann7, cy9]. snd (diffStudents stub_digest [ann7, cy9] ?prior) (sourcedId s)
                = Some (hashStudent stub_digest s)"
    using T np d by blast
  have e1: "snd (diffStudents stub_digest [ann7, cy9] ?prior) (str ''7'')
              = Some (hashStudent stub_digest ann7)"
    using e by (simp add: ids)
  have e2: "snd (diffStudents stub_digest [ann7, cy9] ?prior) (str ''9'')
              = Some (hashStudent stub_digest cy9)"
    using e by (simp add: ids)
  show ?thesis
    using np d ch dm e1 e2 by (intro conjI)
qed

text \<open>
  The ids themselves are the keys of the index, whatever they are made of.
\<close>

lemma diffStudents_id_is_key:
  assumes "sourcedId s \<noteq> str ''__proto__''"
  shows "sourcedId s \<in> dom (snd (diffStudents sha [s] prior))"
proof -
  have "str ''__proto__'' \<notin> sourcedId ` set [s]"
    using assms by auto
  then have "dom (snd (diffStudents sha [s] prior)) = sourcedId ` set [s]"
    by (rule diffStudents_dom)
  then show ?thesis by simp
qed

section \<open>CSV tokenizer and export parser\<close>

lemma scan_plain:
  "list_all (\<lambda>c. c \<noteq> 0x22 \<and> c \<noteq> 0x2C \<and> c \<noteq> 0x0A \<and> c \<noteq> 0x0D) s \<Longrightarrow>
   csv_scan (s @ rest) (lines, current, False, rows)
     = csv_scan rest (lines, current @ s, False, rows)"
  by (induction s arbitrary: current) (simp_all add: csv_step_def csv_scan.simps(2))

lemma scan_quote_close:
  assumes "\<not> starts_with_quote rest"
  shows "csv_scan (0x22 # rest) (lines, current, True, rows)
           = csv_scan rest (lines, current, False, rows)"
proof (cases rest)
  case Nil
  then show ?thesis by (simp add: csv_step_def csv_scan.simps(2))
next
  case (Cons a list)
  then show ?thesis using assms by (simp add: csv_step_def csv_scan.simps(2) starts_with_quote_def)
qed

lemma scan_quote_open:
  "csv_scan (0x22 # rest) (lines, current, False, rows) = csv_scan rest (lines, current, True, rows)"
  by (simp add: csv_step_def csv_scan.simps(2))

lemma scan_quote_doubled:
  "csv_scan (0x22 # 0x22 # rest) (lines, current, True, rows)
     = csv_scan rest (lines, current @ [0x22], True, rows)"
  by (simp add: csv_step_def csv_scan.simps(2))

lemma scan_inside_quotes:
  "c \<noteq> 0x22 \<Longrightarrow>
   csv_scan (c # rest) (lines, current, True, rows) = csv_scan rest (lines, current @ [c], True, rows)"
  by (simp add: csv_step_def csv_scan.simps(2))

lemma scan_quoted_body:
  "\<not> starts_with_quote rest \<Longrightarrow>
   csv_scan (double_quotes s @ 0x22 # rest) (lines, current, True, rows)
     = csv_scan rest (lines, current @ s, False, rows)"
proof (induction s arbitrary: current)
  case Nil
  then show ?case
    by (simp add: double_quotes_def scan_quote_close)
next
  case (Cons c s)
  let ?tail = "double_quotes s @ 0x22 # rest"
  show ?case
  proof (cases "c = 0x22")
    case True
    have "double_quotes (c # s) @ 0x22 # rest = 0x22 # 0x22 # ?tail"
      using True by (simp add: double_quotes_def)
    then have "csv_scan (double_quotes (c # s) @ 0x22 # rest) (lines, current, True, rows)
                 = csv_scan ?tail (lines, current @ [0x22], True, rows)"
      by (simp only: scan_quote_doubled)
    also have "\<dots> = csv_scan rest (lines, (current @ [0x22]) @ s, False, rows)"
      by (rule Cons.IH [OF Cons.prems])
    finally show ?thesis using True by simp
  next
    case False
    have "double_quotes (c # s) @ 0x22 # rest = c # ?tail"
      using False by (simp add: double_quotes_def)
    then have "csv_scan (double_quotes (c # s) @ 0x22 # rest) (lines, current, True, rows)
                 = csv_scan ?tail (lines, current @ [c], True, rows)"
      by (simp only: scan_inside_quotes [OF False])
    also have "\<dots> = csv_scan rest (lines, (current @ [c]) @ s, False, rows)"
      by (rule Cons.IH [OF Cons.prems])
    finally show ?thesis by simp
  qed
qed

lemma scan_cell:
  assumes "cell_ok c" and "\<not> starts_with_quote rest"
  shows "csv_scan (render_cell c @ rest) (lines, current, False, rows)
           = csv_scan rest (lines, current @ content c, False, rows)"
proof (cases c)
  case (Plain s)
  then show ?thesis using assms(1) by (simp add: scan_plain)
next
  case (Quoted s)
  have "render_cell c @ rest = 0x22 # (double_quotes s @ 0x22 # rest)"
    using Quoted by simp
  then show ?thesis
    using Quoted by (simp only: scan_quote_open scan_quoted_body [OF assms(2)]) simp
qed

lemma scan_comma:
  "csv_scan (0x2C # rest) (lines, current, False, rows)
     = csv_scan rest (lines @ [current], [], False, rows)"
  by (simp add: csv_step_def csv_scan.simps(2))

lemma scan_eol:
  "csv_scan (render_eol e @ rest) (lines, current, False, rows)
     = csv_scan rest ([], [], False,
         if current \<noteq> [] \<or> lines \<noteq> [] then rows @ [lines @ [current]] else rows)"
proof (cases e)
  case LF
  show ?thesis
  proof (cases rest)
    case Nil
    then show ?thesis using LF by (simp add: csv_step_def csv_scan.simps(2))
  next
    case (Cons a list)
    then show ?thesis using LF by (simp add: csv_step_def csv_scan.simps(2))
  qed
next
  case CRLF
  then show ?thesis by (simp add: csv_step_def csv_scan.simps(2))
qed

lemma scan_cells:
  assumes "list_all cell_ok (c # cs)" and "\<not> starts_with_quote rest"
  shows "csv_scan (render_row (c # cs) @ rest) (lines, [], False, rows)
           = csv_scan rest (lines @ map content (butlast (c # cs)), content (last (c # cs)),
               False, rows)"
  using assms
proof (induction cs arbitrary: c lines)
  case Nil
  then show ?case by (simp add: scan_cell)
next
  case (Cons d cs)
  have "render_row (c # d # cs) @ rest = render_cell c @ 0x2C # (render_row (d # cs) @ rest)"
    by simp
  then have "csv_scan (render_row (c # d # cs) @ rest) (lines, [], False, rows)
        = csv_scan (render_row (d # cs) @ rest) (lines @ [content c], [], False, rows)"
    using Cons.prems(1) by (simp add: scan_cell starts_with_quote_def scan_comma)
  also have "\<dots> = csv_scan rest ((lines @ [content c]) @ map content (butlast (d # cs)),
                      content (last (d # cs)), False, rows)"
    using Cons.prems by (intro Cons.IH) simp_all
  finally show ?case by simp
qed

lemma starts_with_quote_eol: "\<not> starts_with_quote (render_eol e @ rest)"
  by (cases e) (simp_all add: starts_with_quote_def)

lemma row_butlast_last:
  "map content (butlast (c # cs)) @ [content (last (c # cs))] = map content (c # cs)"
proof -
  have "butlast (c # cs) @ [last (c # cs)] = c # cs"
    by (rule append_butlast_last_id) simp
  then have "map content (butlast (c # cs) @ [last (c # cs)]) = map content (c # cs)"
    by (rule arg_cong)
  then show ?thesis by simp
qed

lemma row_blank:
  "blank_row (map content (c # cs))
     \<longleftrightarrow> \<not> (content (last (c # cs)) \<noteq> [] \<or> map content (butlast (c # cs)) \<noteq> [])"
  by (cases cs) (auto simp: blank_row_def)

lemma scan_line:
  assumes "list_all cell_ok r"
  shows "csv_scan (render_row r @ render_eol e @ rest) ([], [], False, rows)
           = csv_scan rest ([], [], False,
               if blank_row (map content r) then rows else rows @ [map content r])"
proof (cases r)
  case Nil
  have "csv_scan (render_eol e @ rest) ([], [], False, rows) = csv_scan rest ([], [], False, rows)"
    by (simp only: scan_eol [of e rest "[]" "[]" rows] simp_thms if_False)
  then show ?thesis using Nil by (simp add: blank_row_def)
next
  case (Cons c cs)
  let ?ls = "map content (butlast (c # cs))"
  let ?cur = "content (last (c # cs))"
  have ok: "list_all cell_ok (c # cs)"
    using assms Cons by simp
  have "csv_scan (render_row (c # cs) @ (render_eol e @ rest)) ([], [], False, rows)
          = csv_scan (render_eol e @ rest) ([] @ ?ls, ?cur, False, rows)"
    using ok starts_with_quote_eol by (rule scan_cells)
  also have "[] @ ?ls = ?ls"
    by (rule append_Nil)
  also have "csv_scan (render_eol e @ rest) (?ls, ?cur, False, rows)
          = csv_scan rest ([], [], False,
              if ?cur \<noteq> [] \<or> ?ls \<noteq> [] then rows @ [?ls @ [?cur]] else rows)"
    by (rule scan_eol)
  finally have step:
    "csv_scan (render_row (c # cs) @ (render_eol e @ rest)) ([], [], False, rows)
       = csv_scan rest ([], [], False,
           if ?cur \<noteq> [] \<or> ?ls \<noteq> [] then rows @ [?ls @ [?cur]] else rows)" .
  show ?thesis
  proof (cases "blank_row (map content (c # cs))")
    case True
    then have nb: "\<not> (?cur \<noteq> [] \<or> ?ls \<noteq> [])"
      using row_blank [of c cs] by blast
    have "csv_scan (render_row (c # cs) @ (render_eol e @ rest)) ([], [], False, rows)
            = csv_scan rest ([], [], False, rows)"
      using step by (simp only: nb if_False)
    then show ?thesis
      by (simp only: Cons True if_True)
  next
    case False
    then have nb: "?cur \<noteq> [] \<or> ?ls \<noteq> []"
      using row_blank [of c cs] by blast
    have "csv_scan (render_row (c # cs) @ (render_eol e @ rest)) ([], [], False, rows)
            = csv_scan rest ([], [], False, rows @ [map content (c # cs)])"
      using step by (simp only: nb if_True row_butlast_last)
    then show ?thesis
      by (simp only: Cons False if_False)
  qed
qed

lemma scan_lines:
  assumes "\<forall>(r, e)\<in>set rs. list_all cell_ok r"
  shows "csv_scan (render_lines rs @ rest) ([], [], False, rows)
           = csv_scan rest ([], [], False,
               rows @ filter (\<lambda>r. \<not> blank_row r) (map (\<lambda>(r, e). map content r) rs))"
  using assms
proof (induction rs arbitrary: rows)
  case Nil
  then show ?case by simp
next
  case (Cons a rs)
  obtain r e where a: "a = (r, e)" by (cases a)
  have ok: "list_all cell_ok r" and oks: "\<forall>(r, e)\<in>set rs. list_all cell_ok r"
    using Cons.prems a by auto
  show ?case
    using scan_line [OF ok] Cons.IH [OF oks] by (simp add: a)
qed

lemma csv_rows_rendered:
  assumes "\<forall>(r, e)\<in>set rs. list_all cell_ok r" and "list_all cell_ok final"
  shows "csv_rows (render_lines rs @ render_row final)
           = filter (\<lambda>r. \<not> blank_row r) (map (\<lambda>(r, e). map content r) rs @ [map content final])"
proof -
  let ?rows = "filter (\<lambda>r. \<not> blank_row r) (map (\<lambda>(r, e). map content r) rs)"
  have 1: "csv_scan (render_lines rs @ render_row final) ([], [], False, [])
             = csv_scan (render_row final) ([], [], False, ?rows)"
    using scan_lines [OF assms(1), of "render_row final" "[]"] by (simp only: append_Nil)
  show ?thesis
  proof (cases final)
    case Nil
    have "csv_scan (render_lines rs @ render_row final) ([], [], False, []) = ([], [], False, ?rows)"
      using 1 by (simp only: Nil render_row.simps csv_scan.simps)
    then show ?thesis
      by (simp add: csv_rows_def Nil blank_row_def)
  next
    case (Cons c cs)
    let ?ls = "map content (butlast (c # cs))"
    let ?cur = "content (last (c # cs))"
    have ok: "list_all cell_ok (c # cs)"
      using assms(2) Cons by simp
    have nq: "\<not> starts_with_quote []"
      by (simp add: starts_with_quote_def)
    have "csv_scan (render_row (c # cs) @ []) ([], [], False, ?rows)
            = csv_scan [] ([] @ ?ls, ?cur, False, ?rows)"
      using ok nq by (rule scan_cells)
    then have "csv_scan (render_row (c # cs)) ([], [], False, ?rows) = (?ls, ?cur, False, ?rows)"
      by (simp only: append_Nil append_Nil2 csv_scan.simps)
    moreover have "csv_scan (render_lines rs @ render_row final) ([], [], False, [])
            = csv_scan (render_row (c # cs)) ([], [], False, ?rows)"
      using 1 by (simp only: Cons)
    ultimately have 2: "csv_scan (render_lines rs @ render_row final) ([], [], False, [])
            = (?ls, ?cur, False, ?rows)"
      by (rule trans [rotated])
    show ?thesis
    proof (cases "blank_row (map content (c # cs))")
      case True
      then have nb: "\<not> (?cur \<noteq> [] \<or> ?ls \<noteq> [])"
        using row_blank [of c cs] by blast
      have "csv_rows (render_lines rs @ render_row final) = ?rows"
        unfolding csv_rows_def 2 using nb by (simp only: prod.case if_False)
      then show ?thesis
        using True by (simp only: Cons filter_append filter.simps if_False simp_thms append_Nil2)
    next
      case False
      then have nb: "?cur \<noteq> [] \<or> ?ls \<noteq> []"
        using row_blank [of c cs] by blast
      have "csv_rows (render_lines rs @ render_row final) = ?rows @ [map content (c # cs)]"
        unfolding csv_rows_def 2 using nb by (simp only: prod.case if_True row_butlast_last)
      then show ?thesis
        using False by (simp only: Cons filter_append filter.simps if_True simp_thms)
    qed
  qed
qed

lemmas csv_eval = csv_rows_def csv_scan.simps(2) csv_step_def parseCSV_def trim_def is_space_def
  str_def

lemma same_name_rows:
  "parseCSV same_name_csv
     = ([str ''first'', str ''last''], [[str ''Ann'', str ''Lee''], [str ''Ann'', str ''Lee'']])"
  by (simp add: same_name_csv_def csv_eval)

text \<open>
  C4. On a document written by the RFC 4180 rules (fields plain or quoted, quotes doubled
  inside quoted fields, records ended by LF or CRLF) \<open>parseCSV\<close> returns exactly the records'
  field contents: a doubled quote comes back as one quote, commas and line breaks inside a
  quoted field stay in that field, and both line endings end a record. Blank records (no
  field, or one empty field) are skipped, the first remaining record is the header row and
  its fields are trimmed. The row with the two quoted fields \<open>Doe, Jane\<close> and
  \<open>Smith High, Annex\<close>, line break, \<open>Bldg B\<close> comes back as two fields.
\<close>

theorem parseCSV_rfc4180:
  assumes "\<forall>(r, e)\<in>set rs. list_all cell_ok r" and "list_all cell_ok final"
  shows "parseCSV (render_lines rs @ render_row final)
           = (case filter (\<lambda>r. \<not> blank_row r)
                     (map (\<lambda>(r, e). map content r) rs @ [map content final]) of
                [] \<Rightarrow> ([], [])
              | header # rest \<Rightarrow> (map trim header, rest))"
  unfolding parseCSV_def csv_rows_rendered [OF assms] ..

theorem parseCSV_rfc4180_witness:
  "parseCSV quoted_csv
     = ([str ''name'', str ''school''],
        [[str ''Doe, Jane'', str ''Smith High, Annex'' @ [0x0A] @ str ''Bldg B''],
         [str ''say \"hi\"'', str ''x'']])"
proof -
  let ?rs = "[([Plain (str ''name''), Plain (str ''school'')], CRLF),
              ([Quoted (str ''Doe, Jane''),
                Quoted (str ''Smith High, Annex'' @ [0x0A] @ str ''Bldg B'')], LF)]"
  let ?final = "[Quoted (str ''say \"hi\"''), Plain (str ''x'')]"
  have ok: "\<forall>(r, e)\<in>set ?rs. list_all cell_ok r"
    by (simp add: str_def)
  have okf: "list_all cell_ok ?final"
    by (simp add: str_def)
  have rendered: "render_lines ?rs @ render_row ?final = quoted_csv"
    by (simp add: quoted_csv_def double_quotes_def str_def)
  have "parseCSV (render_lines ?rs @ render_row ?final)
          = ([trim (str ''name''), trim (str ''school'')],
             [[str ''Doe, Jane'', str ''Smith High, Annex'' @ [0x0A] @ str ''Bldg B''],
              [str ''say \"hi\"'', str ''x'']])"
    unfolding parseCSV_rfc4180 [OF ok okf] by (simp add: blank_row_def str_def)
  moreover have "trim (str ''name'') = str ''name''" "trim (str ''school'') = str ''school''"
    by (simp_all add: trim_def is_space_def str_def)
  ultimately show ?thesis
    by (simp only: rendered)
qed

text \<open>
  C5. A record without an extracted id gets a synthesized one, and the synthesized ids of
  one parse should be pairwise distinct. In the CSV parser the synthesized id has no row
  index: two rows with the same name and no id column get the same id.
\<close>

theorem parseExportCSV_same_name_same_id:
  "map (\<lambda>r. props r SourcedId) (parseExportCSV ascii_toLowerCase same_name_csv)
     = [Some (str ''ps_lee_ann''), Some (str ''ps_lee_ann'')]"
proof -
  have m: "mapCSVHeaders ascii_toLowerCase [str ''first'', str ''last'']
             = [(0, Mapped FirstName), (Suc 0, Mapped LastName)]"
    by (simp add: mapCSVHeaders_def column_of_def CSV_COLUMN_MAP_def ascii_toLowerCase_def
        trim_def is_space_def str_def)
  have r: "map (\<lambda>r. props r SourcedId)
             (row_student ascii_toLowerCase [(0, Mapped FirstName), (Suc 0, Mapped LastName)]
                [str ''first'', str ''last''] [str ''Ann'', str ''Lee''])
           = [Some (str ''ps_lee_ann'')]"
    by (simp add: row_student_def cell_at_def fallback_id_csv_def ascii_toLowerCase_def
        trim_def is_space_def str_def Let_def)
  have nb: "strip_bom same_name_csv = same_name_csv"
    by (simp add: strip_bom_def same_name_csv_def str_def)
  show ?thesis
    by (simp add: parseExportCSV_def Let_def nb same_name_rows m r)
qed

text \<open>
  C6. A leading byte order mark U+FEFF should not change what \<open>parseExportCSV\<close> returns.
  It is not stripped, and in front of a text that starts with a line break it forms a
  header row of its own: the text alone yields one record, the text after a BOM none.
\<close>

theorem parseExportCSV_bom_before_blank_line:
  "map (\<lambda>r. (props r SourcedId, props r FirstName))
       (parseExportCSV ascii_toLowerCase blank_first_line_csv)
     = [(Some (str ''1''), Some (str ''Bob''))]
   \<and> parseExportCSV ascii_toLowerCase (0xFEFF # blank_first_line_csv) = []"
proof -
  have p1: "parseCSV blank_first_line_csv = ([str ''id'', str ''first''], [[str ''1'', str ''Bob'']])"
    by (simp add: blank_first_line_csv_def csv_eval)
  have p2: "parseCSV (0xFEFF # blank_first_line_csv)
              = ([[]], [[str ''id'', str ''first''], [str ''1'', str ''Bob'']])"
    by (simp add: blank_first_line_csv_def csv_eval)
  have nb: "strip_bom blank_first_line_csv = blank_first_line_csv"
      "strip_bom (0xFEFF # blank_first_line_csv) = 0xFEFF # blank_first_line_csv"
    by (simp_all add: strip_bom_def blank_first_line_csv_def str_def)
  have m1: "mapCSVHeaders ascii_toLowerCase [str ''id'', str ''first'']
             = [(0, Mapped SourcedId), (Suc 0, Mapped FirstName)]"
    by (simp add: mapCSVHeaders_def column_of_def CSV_COLUMN_MAP_def ascii_toLowerCase_def
        trim_def is_space_def str_def)
  have m2: "mapCSVHeaders ascii_toLowerCase [[]] = []"
    by (simp add: mapCSVHeaders_def column_of_def CSV_COLUMN_MAP_def ascii_toLowerCase_def
        trim_def object_prototype_keys_def str_def)
  have r: "map (\<lambda>r. (props r SourcedId, props r FirstName))
             (row_student ascii_toLowerCase [(0, Mapped SourcedId), (Suc 0, Mapped FirstName)]
                [str ''id'', str ''first''] [str ''1'', str ''Bob''])
           = [(Some (str ''1''), Some (str ''Bob''))]"
    by (simp add: row_student_def cell_at_def trim_def is_space_def str_def Let_def)
  have a: "map (\<lambda>r. (props r SourcedId, props r FirstName))
       (parseExportCSV ascii_toLowerCase blank_first_line_csv)
     = [(Some (str ''1''), Some (str ''Bob''))]"
    by (simp add: parseExportCSV_def Let_def nb p1 m1 r)
  have b: "parseExportCSV ascii_toLowerCase (0xFEFF # blank_first_line_csv) = []"
    by (simp add: parseExportCSV_def Let_def nb p2 m2)
  show ?thesis using a b by (rule conjI)
qed

section \<open>Combined-name splitter\<close>

lemma split_on_takeWhile:
  "split_on sep current s
     = (current @ takeWhile (\<lambda>c. c \<noteq> sep) s)
       # (if sep \<in> set s then split_on sep [] (drop 1 (dropWhile (\<lambda>c. c \<noteq> sep) s)) else [])"
  by (induction s arbitrary: current) auto

lemma split_spaces_tokens:
  assumes "s = [] \<or> \<not> is_space (last s)"
  shows "split_spaces current s
           = (current @ takeWhile (\<lambda>x. \<not> is_space x) s)
             # tokens (dropWhile (\<lambda>x. \<not> is_space x) s)"
  using assms
proof (induction current s rule: split_spaces.induct)
  case (1 current)
  show ?case by (simp add: tokens.simps)
next
  case (2 current c cs)
  show ?case
  proof (cases "is_space c")
    case False
    have "cs = [] \<or> \<not> is_space (last cs)"
      using "2.prems" by (cases cs) auto
    then show ?thesis
      using False "2.IH"(2) by simp
  next
    case True
    let ?s' = "dropWhile is_space cs"
    have cs: "cs \<noteq> []" "\<not> is_space (last cs)"
      using "2.prems" True by (cases cs; auto)+
    have ne: "?s' \<noteq> []"
      using cs by (metis dropWhile_eq_Nil_conv last_in_set)
    have "last ?s' = last cs"
      using ne by (metis takeWhile_dropWhile_id last_appendR)
    then have ok: "?s' = [] \<or> \<not> is_space (last ?s')"
      using cs by simp
    have t: "tokens (c # cs)
               = takeWhile (\<lambda>x. \<not> is_space x) ?s' # tokens (dropWhile (\<lambda>x. \<not> is_space x) ?s')"
      using ne True by (subst tokens.simps) (simp split: list.splits)
    show ?thesis
      using True "2.IH"(1) [OF True ok] t by simp
  qed
qed

lemma trim_ends: "trim s = [] \<or> \<not> is_space (last (trim s))"
proof -
  let ?y = "dropWhile is_space (rev (dropWhile is_space s))"
  show ?thesis
  proof (cases "?y = []")
    case True
    then show ?thesis by (simp add: trim_def)
  next
    case False
    then have "\<not> is_space (hd ?y)"
      by (rule hd_dropWhile)
    then show ?thesis
      using False by (simp add: trim_def last_rev)
  qed
qed

lemma tokens_empty:
  assumes "tokens d = []" and "d = [] \<or> \<not> is_space (last d)"
  shows "d = []"
proof (rule ccontr)
  assume ne: "d \<noteq> []"
  have "dropWhile is_space d = []"
    using assms(1) by (subst (asm) tokens.simps) (simp split: list.splits)
  then have "is_space (last d)"
    using ne by simp
  then show False using assms(2) ne by simp
qed

lemma parseName_comma:
  assumes "0x2C \<in> set (trim raw)"
  shows "parseName raw
           = (trim (takeWhile (\<lambda>c. c \<noteq> 0x2C) (drop 1 (dropWhile (\<lambda>c. c \<noteq> 0x2C) (trim raw)))),
              trim (takeWhile (\<lambda>c. c \<noteq> 0x2C) (trim raw)))"
proof -
  let ?text = "trim raw"
  let ?rest = "drop 1 (dropWhile (\<lambda>c. c \<noteq> 0x2C) ?text)"
  have "split_on 0x2C [] ?text = takeWhile (\<lambda>c. c \<noteq> 0x2C) ?text # split_on 0x2C [] ?rest"
    using assms split_on_takeWhile [of "0x2C" "[]" ?text] by simp
  moreover obtain more where "split_on 0x2C [] ?rest = takeWhile (\<lambda>c. c \<noteq> 0x2C) ?rest # more"
    using split_on_takeWhile [of "0x2C" "[]" ?rest] by simp
  ultimately show ?thesis
    using assms by (simp add: parseName_def Let_def)
qed

lemma parseName_spaces:
  assumes "0x2C \<notin> set (trim raw)"
  shows "parseName raw
           = (takeWhile (\<lambda>x. \<not> is_space x) (trim raw),
              join_with [0x20] (tokens (dropWhile (\<lambda>x. \<not> is_space x) (trim raw))))"
proof -
  let ?text = "trim raw"
  let ?d = "dropWhile (\<lambda>x. \<not> is_space x) ?text"
  have parts: "split_spaces [] ?text = takeWhile (\<lambda>x. \<not> is_space x) ?text # tokens ?d"
    using split_spaces_tokens [OF trim_ends, of "[]" raw] by simp
  show ?thesis
  proof (cases "tokens ?d = []")
    case False
    then have "2 \<le> length (split_spaces [] ?text)"
      by (cases "tokens ?d") (simp_all add: parts)
    then show ?thesis
      using assms by (simp add: parseName_def Let_def parts)
  next
    case True
    have "?d = [] \<or> \<not> is_space (last ?d)"
    proof (cases "?d = []")
      case False
      then have "last ?d = last ?text"
        by (metis takeWhile_dropWhile_id last_appendR)
      moreover have "?text \<noteq> []" using False by auto
      ultimately show ?thesis using trim_ends [of raw] by simp
    qed simp
    then have "?d = []"
      using True by (intro tokens_empty)
    then have tw: "takeWhile (\<lambda>x. \<not> is_space x) ?text = ?text"
      by (metis takeWhile_dropWhile_id append_Nil2)
    have "parseName raw = (?text, [])"
      using assms True by (simp add: parseName_def Let_def parts)
    then show ?thesis
      by (simp only: tw True join_with.simps)
  qed
qed

text \<open>
  C8, as amended. The splitter works on the trimmed text. With a comma in it, the surname
  is the trimmed part before the first comma and the given name the trimmed part between
  the first comma and the second (all that follows the first comma when there is no
  second). Without a comma, the given name is the first white-space-delimited token and
  the surname is the remaining tokens joined by single spaces.
\<close>

theorem parseName_splits:
  "(0x2C \<in> set (trim raw) \<longrightarrow>
      parseName raw
        = (trim (takeWhile (\<lambda>c. c \<noteq> 0x2C) (drop 1 (dropWhile (\<lambda>c. c \<noteq> 0x2C) (trim raw)))),
           trim (takeWhile (\<lambda>c. c \<noteq> 0x2C) (trim raw))))
   \<and> (0x2C \<notin> set (trim raw) \<longrightarrow>
      parseName raw
        = (takeWhile (\<lambda>x. \<not> is_space x) (trim raw),
           join_with [0x20] (tokens (dropWhile (\<lambda>x. \<not> is_space x) (trim raw)))))"
  using parseName_comma parseName_spaces by blast

lemmas name_eval = parseName_def name_split_spec_def trim_def is_space_def str_def Let_def
  split_spaces.simps

theorem parseName_splits_witness:
  "0x2C \<in> set (trim (str '' Lee, Ann ''))
   \<and> parseName (str '' Lee, Ann '') = (str ''Ann'', str ''Lee'')
   \<and> 0x2C \<notin> set (trim (str ''Mary Ann Smith''))
   \<and> parseName (str ''Mary Ann Smith'') = (str ''Mary'', str ''Ann Smith'')"
proof -
  have c: "0x2C \<in> set (trim (str '' Lee, Ann ''))"
    by (simp add: trim_def is_space_def str_def)
  have n: "0x2C \<notin> set (trim (str ''Mary Ann Smith''))"
    by (simp add: trim_def is_space_def str_def)
  have t1: "trim (str '' Lee, Ann '') = str ''Lee, Ann''"
    by (simp add: trim_def is_space_def str_def)
  have t2: "trim (str ''Mary Ann Smith'') = str ''Mary Ann Smith''"
    by (simp add: trim_def is_space_def str_def)
  have tk: "tokens (str ''Ann Smith'') = [str ''Ann'', str ''Smith'']"
    by (simp add: tokens.simps is_space_def str_def)
  have "parseName (str '' Lee, Ann '')
          = (trim (takeWhile (\<lambda>c. c \<noteq> 0x2C)
               (drop 1 (dropWhile (\<lambda>c. c \<noteq> 0x2C) (trim (str '' Lee, Ann ''))))),
             trim (takeWhile (\<lambda>c. c \<noteq> 0x2C) (trim (str '' Lee, Ann ''))))"
    using parseName_splits [of "str '' Lee, Ann ''"] c by blast
  then have a: "parseName (str '' Lee, Ann '') = (str ''Ann'', str ''Lee'')"
    unfolding t1 by (simp add: trim_def is_space_def str_def)
  have "parseName (str ''Mary Ann Smith'')
          = (takeWhile (\<lambda>x. \<not> is_space x) (trim (str ''Mary Ann Smith'')),
             join_with [0x20]
               (tokens (dropWhile (\<lambda>x. \<not> is_space x) (trim (str ''Mary Ann Smith'')))))"
    using parseName_splits [of "str ''Mary Ann Smith''"] n by blast
  moreover have "dropWhile (\<lambda>x. \<not> is_space x) (str ''Mary Ann Smith'') = 0x20 # str ''Ann Smith''"
    by (simp add: is_space_def str_def)
  moreover have "tokens (0x20 # str ''Ann Smith'') = [str ''Ann'', str ''Smith'']"
    by (subst tokens.simps) (simp add: tokens.simps is_space_def str_def)
  ultimately have b: "parseName (str ''Mary Ann Smith'') = (str ''Mary'', str ''Ann Smith'')"
    unfolding t2 by (simp add: is_space_def str_def)
  show ?thesis using c a n b by (intro conjI)
qed

text \<open>
  What follows a second comma is dropped, and runs of white space inside the surname
  become single spaces: on these texts the splitter and the specification's wording part.
\<close>

theorem parseName_two_commas_counterexample:
  "parseName (str ''Smith, John, Jr'') = (str ''John'', str ''Smith'')
   \<and> name_split_spec (str ''Smith, John, Jr'') = (str ''John, Jr'', str ''Smith'')
   \<and> parseName (str ''Mary Ann  Smith'') = (str ''Mary'', str ''Ann Smith'')
   \<and> name_split_spec (str ''Mary Ann  Smith'') = (str ''Mary'', str ''Ann  Smith'')"
  by (simp add: name_eval)

section \<open>Profile scraping: first match wins\<close>















lemmas rx_eval = PROFILE_FIELD_PATTERNS_def alternatives_def rx_test_def lower_unit_def
  is_line_terminator_def clean_label_def trim_def is_space_def str_def


lemma demo_locker_label:
  "first_match PROFILE_FIELD_PATTERNS (str ''Locker'') = None"
  by (simp add: rx_eval)


lemma demo_clean:
  "clean_label (str ''First Name:'') = str ''First Name''"
  "clean_label (str ''First Name'') = str ''First Name''"
  "clean_label (str ''Locker'') = str ''Locker''"
  by (simp_all add: clean_label_def trim_def is_space_def str_def)




text \<open>
  The entries of \<open>extra\<close> are not fields in this sense: a second pair with the same
  unrecognised label replaces the value.
\<close>

lemma extra_label_last_wins:
  "extra_labels (processLabelValue (str ''Locker'') (str ''15'')
       (processLabelValue (str ''Locker'') (str ''12'') rcd)) (str ''Locker'') = Some (str ''15'')"
proof -
  have "str ''Locker'' \<noteq> []" "str ''15'' \<noteq> []" "\<not> 500 < length (str ''15'')"
      "str ''12'' \<noteq> []" "\<not> 500 < length (str ''12'')" "str ''Locker'' \<noteq> str ''__proto__''"
    by (simp_all add: str_def)
  then show ?thesis
    by (simp add: processLabelValue_def Let_def demo_locker_label demo_clean js_set_def)
qed

section \<open>Deep crawl: failures stay with their item\<close>






end
